theory Spec2Isabelle
  imports Complex_Main "HOL-Library.Char_ord" "HOL-Library.List_Lexorder"
begin

section \<open>The data the handler works on\<close>

text \<open>
  \<^verbatim>\<open>Movie.post\<close> of \<^verbatim>\<open>RecommendationSystem.py\<close> reads every row of the table
  \<^verbatim>\<open>movies\<close> (\<^verbatim>\<open>cursor.fetchall()\<close>) into a data frame with the three columns
  below. A row is modelled as a record with the column names of the source; the
  catalog is the list of rows in the order the query returned them, and the row index
  of the data frame is the position in that list.
\<close>

record movie =
  movie_title :: string
  movie_poster :: string
  movie_genres :: string

text \<open>
  What the handler can raise on the way: \<^verbatim>\<open>CountVectorizer.fit_transform\<close> raises
  \<^verbatim>\<open>ValueError("empty vocabulary; ...")\<close> when no document yields a feature; the
  comparison and the mask of line 50 need shapes that fit; \<^verbatim>\<open>iloc\<close> raises
  \<^verbatim>\<open>IndexError\<close> on a position outside the frame.
\<close>

datatype error = EmptyVocabulary | ShapeMismatch | IndexError

section \<open>Line 36: the genre string with its commas deleted\<close>

text \<open>
  \<^verbatim>\<open>movies["genres_literal"] = movies["movie_genres"].apply(lambda x : x.replace(',',''))\<close>.
  The second argument of \<^verbatim>\<open>replace\<close> is the empty string: every comma is deleted and
  nothing is put in its place.
\<close>

definition genres_literal :: "movie \<Rightarrow> string" where
  "genres_literal m = filter (\<lambda>c. c \<noteq> CHR '','') (movie_genres m)"

section \<open>Lines 38-39: the count vectorizer\<close>

text \<open>
  \<^verbatim>\<open>CountVectorizer(min_df=0, ngram_range=(1,2))\<close> keeps the defaults
  \<^verbatim>\<open>lowercase=True\<close>, \<^verbatim>\<open>token_pattern=r"(?u)\b\w\w+\b"\<close>, \<^verbatim>\<open>analyzer='word'\<close>, no stop
  words, \<^verbatim>\<open>max_df=1.0\<close>. The model follows the releases of scikit-learn that take
  \<^verbatim>\<open>min_df=0\<close> (it prunes nothing). Strings are modelled over the ASCII code
  points: a word character is a letter, a digit or the underscore, and lowercasing
  maps A-Z to a-z; a character above 127 is outside the model (it is read as a
  separator and left as it is).
\<close>

definition word_char :: "char \<Rightarrow> bool" where
  "word_char c \<longleftrightarrow>
     (CHR ''a'' \<le> c \<and> c \<le> CHR ''z'') \<or> (CHR ''A'' \<le> c \<and> c \<le> CHR ''Z'') \<or>
     (CHR ''0'' \<le> c \<and> c \<le> CHR ''9'') \<or> c = CHR ''_''"

definition lower_char :: "char \<Rightarrow> char" where
  "lower_char c =
     (if CHR ''A'' \<le> c \<and> c \<le> CHR ''Z'' then char_of (of_char c + (32::nat)) else c)"

text \<open>
  The maximal runs of word characters of a document, left to right (\<open>cur\<close> is the run
  being read; a run may be empty).
\<close>

fun runs :: "string \<Rightarrow> string \<Rightarrow> string list" where
  "runs cur [] = [cur]"
| "runs cur (c # cs) = (if word_char c then runs (cur @ [c]) cs else cur # runs [] cs)"

text \<open>
  \<^verbatim>\<open>re.findall(r"\b\w\w+\b", doc)\<close>: the pattern is greedy and anchored at word
  boundaries on both sides, so it matches exactly the maximal runs of at least two
  word characters.
\<close>

definition token_pattern :: "string \<Rightarrow> string list" where
  "token_pattern doc = filter (\<lambda>w. 2 \<le> length w) (runs [] doc)"

text \<open>
  \<^verbatim>\<open>_word_ngrams\<close> with \<^verbatim>\<open>ngram_range=(1,2)\<close>: the tokens themselves, then every pair
  of adjacent tokens joined by one space.
\<close>

definition word_ngrams :: "string list \<Rightarrow> string list" where
  "word_ngrams tokens = tokens @ map (\<lambda>(a, b). a @ '' '' @ b) (zip tokens (tl tokens))"

definition analyze :: "string \<Rightarrow> string list" where
  "analyze doc = word_ngrams (token_pattern (map lower_char doc))"

text \<open>
  \<^verbatim>\<open>fit_transform\<close>: the vocabulary is the set of features of all documents, in
  sorted order; the matrix has one row per document and one column per feature,
  holding how often the feature occurs in the document. With \<^verbatim>\<open>min_df=0\<close> and
  \<^verbatim>\<open>max_df=1.0\<close> no feature is pruned. An empty vocabulary raises.
\<close>

definition fit_transform :: "string list \<Rightarrow> error + (string list \<times> nat list list)" where
  "fit_transform raw_documents =
     (let feats = map analyze raw_documents;
          vocabulary = sort (remdups (concat feats))
      in if vocabulary = [] then Inl EmptyVocabulary
         else Inr (vocabulary, map (\<lambda>fs. map (\<lambda>f. count_list fs f) vocabulary) feats))"

section \<open>Line 40: cosine similarity\<close>

text \<open>
  \<^verbatim>\<open>cosine_similarity(X, Y)\<close> scales every row to Euclidean length one (a row of
  norm zero is left as it is: its norm is replaced by one) and multiplies the two
  scaled matrices. Here the entries are exact real numbers; the matrix of float64
  values the program holds is modelled further down and shown to stay close to
  this one. The ranking is modelled on the exact matrix.
\<close>

definition row_norm :: "nat list \<Rightarrow> real" where
  "row_norm x = sqrt (\<Sum>v\<leftarrow>x. (real v)\<^sup>2)"

definition handle_zeros_in_scale :: "real \<Rightarrow> real" where
  "handle_zeros_in_scale s = (if s = 0 then 1 else s)"

definition normalize :: "nat list \<Rightarrow> real list" where
  "normalize x = map (\<lambda>v. real v / handle_zeros_in_scale (row_norm x)) x"

definition dot :: "real list \<Rightarrow> real list \<Rightarrow> real" where
  "dot x y = (\<Sum>(a, b)\<leftarrow>zip x y. a * b)"

definition cosine_similarity :: "nat list list \<Rightarrow> nat list list \<Rightarrow> real list list" where
  "cosine_similarity X Y = map (\<lambda>x. map (\<lambda>y. dot (normalize x) (normalize y)) Y) X"

text \<open>
  Lines 38-40 together: the count matrix of the catalog's \<^verbatim>\<open>genres_literal\<close> column
  and its similarity with itself.
\<close>

definition genre_sim :: "movie list \<Rightarrow> error + real list list" where
  "genre_sim movies =
     (case fit_transform (map genres_literal movies) of
        Inl e \<Rightarrow> Inl e
      | Inr (vocabulary, genre_mat) \<Rightarrow> Inr (cosine_similarity genre_mat genre_mat))"

section \<open>Line 40 as the program computes it: 64-bit floating point\<close>

text \<open>
  The entries of the program's matrix are float64 values. \<^verbatim>\<open>cosine_similarity\<close>
  first converts the counts to float64, then \<^verbatim>\<open>normalize\<close> works on the stored
  (nonzero) entries of each row of the sparse matrix: it adds their squares one by one
  (\<^verbatim>\<open>sum_ += X_data[j] * X_data[j]\<close>), takes the square root, and divides every stored
  entry by it (a row without stored entries is skipped). The product of the two
  normalized matrices adds, for every pair of rows, the products of the entries
  stored in both (\<^verbatim>\<open>sums[k] += v * Bx[kk]\<close>), starting from 0. Every operation rounds
  its exact result.

  The rounding \<open>fl\<close> is a parameter. \<open>rounding_ok\<close> is the standard model of
  floating-point arithmetic with the unit roundoff of float64: the rounded value
  differs from the exact one by at most \<open>2\<^sup>-\<^sup>5\<^sup>3\<close> of its size. Overflow and underflow
  are not modelled (counts and norms of genre strings are far from both).
\<close>

definition unit_roundoff :: real where
  "unit_roundoff = 1 / 2 ^ 53"

definition rounding_ok :: "(real \<Rightarrow> real) \<Rightarrow> bool" where
  "rounding_ok fl \<longleftrightarrow> (\<forall>x. \<bar>fl x - x\<bar> \<le> unit_roundoff * \<bar>x\<bar>)"

text \<open>A running sum: every term is rounded, and every addition.\<close>

definition f64_sum :: "(real \<Rightarrow> real) \<Rightarrow> real list \<Rightarrow> real" where
  "f64_sum fl ts = foldl (\<lambda>s t. fl (s + fl t)) 0 ts"

text \<open>The stored entries of a row of counts, as float64.\<close>

definition f64_stored :: "(real \<Rightarrow> real) \<Rightarrow> nat list \<Rightarrow> real list" where
  "f64_stored fl x = map (\<lambda>v. fl (real v)) (filter (\<lambda>v. v \<noteq> 0) x)"

definition f64_sum_squares :: "(real \<Rightarrow> real) \<Rightarrow> nat list \<Rightarrow> real" where
  "f64_sum_squares fl x = f64_sum fl (map (\<lambda>d. d * d) (f64_stored fl x))"

definition f64_normalize :: "(real \<Rightarrow> real) \<Rightarrow> nat list \<Rightarrow> real list" where
  "f64_normalize fl x =
     (let s = f64_sum_squares fl x
      in map (\<lambda>v. if v = 0 then 0
                   else if s = 0 then fl (real v)
                   else fl (fl (real v) / fl (sqrt s))) x)"

definition f64_dot :: "(real \<Rightarrow> real) \<Rightarrow> real list \<Rightarrow> real list \<Rightarrow> real" where
  "f64_dot fl a b =
     f64_sum fl (map (\<lambda>(p, q). p * q) (filter (\<lambda>(p, q). p \<noteq> 0 \<and> q \<noteq> 0) (zip a b)))"

definition cosine_similarity_f64 ::
    "(real \<Rightarrow> real) \<Rightarrow> nat list list \<Rightarrow> nat list list \<Rightarrow> real list list" where
  "cosine_similarity_f64 fl X Y =
     map (\<lambda>x. map (\<lambda>y. f64_dot fl (f64_normalize fl x) (f64_normalize fl y)) Y) X"

text \<open>
  The rounding of float64 itself: to the nearest number with a significand of 53
  bits, a tie to the even significand. \<open>round_even\<close> rounds to the nearest integer.
\<close>

definition round_even :: "real \<Rightarrow> int" where
  "round_even y =
     (let f = \<lfloor>y\<rfloor>; d = y - of_int f
      in if d < 1 / 2 then f else if 1 / 2 < d then f + 1 else if even f then f else f + 1)"

definition round64 :: "real \<Rightarrow> real" where
  "round64 x =
     (if x = 0 then 0
      else let e = of_int \<lfloor>log 2 \<bar>x\<bar>\<rfloor> - 52
           in sgn x * (of_int (round_even (\<bar>x\<bar> / 2 powr e)) * 2 powr e))"

text \<open>
  How far a computed value may be from the exact one: \<open>close_to k x y\<close> holds when
  the two are not negative and each is at most \<open>ratio ^ k\<close> times the other. One
  rounding keeps a value \<open>close_to 1\<close> the exact one.
\<close>

definition ratio :: real where
  "ratio = (1 + unit_roundoff) / (1 - unit_roundoff)"

definition close_to :: "nat \<Rightarrow> real \<Rightarrow> real \<Rightarrow> bool" where
  "close_to k x y \<longleftrightarrow> 0 \<le> x \<and> 0 \<le> y \<and> y \<le> ratio ^ k * x \<and> x \<le> ratio ^ k * y"

section \<open>Line 41: the ranking of every row\<close>

text \<open>
  \<^verbatim>\<open>genre_sim.argsort()[:, ::-1]\<close> sorts the column indices of every row by
  ascending similarity and reverses the result. numpy's default \<^verbatim>\<open>argsort\<close> does
  not promise an order among equal entries, so the handler is modelled for any
  \<open>argsort\<close>, passed as a parameter; \<open>argsort_ok\<close> is numpy's contract: the result
  lists every index of the row once and reads the row in ascending order.
\<close>

definition argsort_ok :: "(real list \<Rightarrow> nat list) \<Rightarrow> bool" where
  "argsort_ok argsort \<longleftrightarrow>
     (\<forall>v. distinct (argsort v) \<and> set (argsort v) = {..<length v} \<and>
          sorted (map (\<lambda>i. v ! i) (argsort v)))"

definition genre_sim_sorted_ind :: "(real list \<Rightarrow> nat list) \<Rightarrow> real list list \<Rightarrow> nat list list" where
  "genre_sim_sorted_ind argsort sim = map (\<lambda>row. rev (argsort row)) sim"

text \<open>
  The sort numpy's scalar quicksort runs on a row of at most 16 entries (it hands
  every partition of that size to an insertion sort; a longer row is partitioned
  first, and its ties may come out in another order): the indices \<open>0, 1, ...\<close> enter one by
  one, and each moves left past the indices whose entry is strictly greater. The
  sorted prefix is held with its last element first.
\<close>

fun insert_index :: "real list \<Rightarrow> nat \<Rightarrow> nat list \<Rightarrow> nat list" where
  "insert_index v vi [] = [vi]"
| "insert_index v vi (k # ks) =
     (if v ! vi < v ! k then k # insert_index v vi ks else vi # k # ks)"

text \<open>The prefix after the first \<open>n\<close> indices have entered, and the whole sort.\<close>

definition insertion_prefix :: "real list \<Rightarrow> nat \<Rightarrow> nat list" where
  "insertion_prefix v n = foldl (\<lambda>prefix vi. insert_index v vi prefix) [] [0..<n]"

definition argsort_insertion :: "real list \<Rightarrow> nat list" where
  "argsort_insertion v = rev (insertion_prefix v (length v))"

section \<open>Lines 43-50: the rows of the target and the selection\<close>

text \<open>
  \<^verbatim>\<open>movies[movies['movie_title'] == target].index.values\<close>: the positions of the rows
  whose title is the target, ascending.
\<close>

definition title_index :: "movie list \<Rightarrow> string \<Rightarrow> nat list" where
  "title_index movies target =
     filter (\<lambda>i. movie_title (movies ! i) = target) [0..<length movies]"

text \<open>
  \<^verbatim>\<open>similar_indexes != title_index\<close> on two one-dimensional arrays: elementwise when
  the lengths agree, against the single element when one side has length one, and
  a failure otherwise (the shapes do not broadcast). The failure needs a target that
  is the title of two rows or more.
\<close>

definition not_equal :: "nat list \<Rightarrow> nat list \<Rightarrow> error + bool list" where
  "not_equal a b =
     (if length a = length b then Inr (map (\<lambda>(x, y). x \<noteq> y) (zip a b))
      else if length b = 1 then Inr (map (\<lambda>x. x \<noteq> hd b) a)
      else if length a = 1 then Inr (map (\<lambda>y. hd a \<noteq> y) b)
      else Inl ShapeMismatch)"

text \<open>\<^verbatim>\<open>a[mask]\<close> with a boolean mask: the mask has the length of \<open>a\<close>, or it fails.\<close>

definition getitem_mask :: "nat list \<Rightarrow> bool list \<Rightarrow> error + nat list" where
  "getitem_mask a keep =
     (if length keep = length a then Inr (map fst (filter snd (zip a keep)))
      else Inl IndexError)"

text \<open>
  Lines 46-50: the first 16 entries of the ranking of every target row
  (\<^verbatim>\<open>genre_sim_sorted_ind[title_index, :(16)]\<close>), flattened row by row
  (\<^verbatim>\<open>reshape(-1)\<close>), and the entries that differ from \<open>title_index\<close> kept.
\<close>

definition similar_indexes :: "nat list list \<Rightarrow> nat list \<Rightarrow> error + nat list" where
  "similar_indexes sorted_ind title_idx =
     (let rows = map (\<lambda>t. take 16 (sorted_ind ! t)) title_idx;
          flat = concat rows
      in case not_equal flat title_idx of
           Inl e \<Rightarrow> Inl e
         | Inr keep \<Rightarrow> getitem_mask flat keep)"

section \<open>Lines 52-56: the rows selected and their posters\<close>

text \<open>\<^verbatim>\<open>movies.iloc[similar_indexes]\<close>: the rows at the positions, in that order.\<close>

definition iloc :: "movie list \<Rightarrow> nat list \<Rightarrow> error + movie list" where
  "iloc movies idx =
     (if \<forall>i \<in> set idx. i < length movies then Inr (map (\<lambda>i. movies ! i) idx)
      else Inl IndexError)"

text \<open>
  The handler. Its result is the column \<^verbatim>\<open>movie_poster\<close> of the selected rows, in
  order; \<^verbatim>\<open>to_json(orient='records')\<close> writes one object per entry of that list in
  the same order.
\<close>

definition post :: "(real list \<Rightarrow> nat list) \<Rightarrow> movie list \<Rightarrow> string \<Rightarrow> error + string list" where
  "post argsort all_movies target =
     (case genre_sim all_movies of
        Inl e \<Rightarrow> Inl e
      | Inr sim \<Rightarrow>
          (case similar_indexes (genre_sim_sorted_ind argsort sim)
                  (title_index all_movies target) of
             Inl e \<Rightarrow> Inl e
           | Inr idx \<Rightarrow>
               (case iloc all_movies idx of
                  Inl e \<Rightarrow> Inl e
                | Inr similar_movies \<Rightarrow> Inr (map movie_poster similar_movies))))"

section \<open>Catalogs used as examples\<close>

text \<open>
  The catalog of the scenario: three movies, the genres of a movie separated by a
  comma alone.
\<close>

definition alien_catalog :: "movie list" where
  "alien_catalog =
    [\<lparr>movie_title = ''Alien'', movie_poster = ''p1'', movie_genres = ''Horror,Sci-Fi''\<rparr>,
     \<lparr>movie_title = ''Saw'', movie_poster = ''p2'', movie_genres = ''Horror''\<rparr>,
     \<lparr>movie_title = ''Up'', movie_poster = ''p3'', movie_genres = ''Animation,Family''\<rparr>]"

text \<open>The same movies with a space after every comma.\<close>

definition spaced_catalog :: "movie list" where
  "spaced_catalog =
    [\<lparr>movie_title = ''Alien'', movie_poster = ''p1'', movie_genres = ''Horror, Sci-Fi''\<rparr>,
     \<lparr>movie_title = ''Saw'', movie_poster = ''p2'', movie_genres = ''Horror''\<rparr>,
     \<lparr>movie_title = ''Up'', movie_poster = ''p3'', movie_genres = ''Animation, Family''\<rparr>]"

text \<open>Two movies of one genre that share a poster.\<close>

definition twin_catalog :: "movie list" where
  "twin_catalog =
    [\<lparr>movie_title = ''Alien'', movie_poster = ''p1'', movie_genres = ''Horror''\<rparr>,
     \<lparr>movie_title = ''Saw'', movie_poster = ''p1'', movie_genres = ''Horror''\<rparr>]"

text \<open>A movie whose only genre tag is a single letter, and one with a longer tag.\<close>

definition letter_catalog :: "movie list" where
  "letter_catalog =
    [\<lparr>movie_title = ''A'', movie_poster = ''p1'', movie_genres = ''X''\<rparr>,
     \<lparr>movie_title = ''Saw'', movie_poster = ''p2'', movie_genres = ''Horror''\<rparr>]"

text \<open>Seventeen movies of the same genre.\<close>

definition drama_catalog :: "movie list" where
  "drama_catalog =
    [\<lparr>movie_title = ''M00'', movie_poster = ''p00'', movie_genres = ''Drama''\<rparr>,
     \<lparr>movie_title = ''M01'', movie_poster = ''p01'', movie_genres = ''Drama''\<rparr>,
     \<lparr>movie_title = ''M02'', movie_poster = ''p02'', movie_genres = ''Drama''\<rparr>,
     \<lparr>movie_title = ''M03'', movie_poster = ''p03'', movie_genres = ''Drama''\<rparr>,
     \<lparr>movie_title = ''M04'', movie_poster = ''p04'', movie_genres = ''Drama''\<rparr>,
     \<lparr>movie_title = ''M05'', movie_poster = ''p05'', movie_genres = ''Drama''\<rparr>,
     \<lparr>movie_title = ''M06'', movie_poster = ''p06'', movie_genres = ''Drama''\<rparr>,
     \<lparr>movie_title = ''M07'', movie_poster = ''p07'', movie_genres = ''Drama''\<rparr>,
     \<lparr>movie_title = ''M08'', movie_poster = ''p08'', movie_genres = ''Drama''\<rparr>,
     \<lparr>movie_title = ''M09'', movie_poster = ''p09'', movie_genres = ''Drama''\<rparr>,
     \<lparr>movie_title = ''M10'', movie_poster = ''p10'', movie_genres = ''Drama''\<rparr>,
     \<lparr>movie_title = ''M11'', movie_poster = ''p11'', movie_genres = ''Drama''\<rparr>,
     \<lparr>movie_title = ''M12'', movie_poster = ''p12'', movie_genres = ''Drama''\<rparr>,
     \<lparr>movie_title = ''M13'', movie_poster = ''p13'', movie_genres = ''Drama''\<rparr>,
     \<lparr>movie_title = ''M14'', movie_poster = ''p14'', movie_genres = ''Drama''\<rparr>,
     \<lparr>movie_title = ''M15'', movie_poster = ''p15'', movie_genres = ''Drama''\<rparr>,
     \<lparr>movie_title = ''M16'', movie_poster = ''p16'', movie_genres = ''Drama''\<rparr>]"

section \<open>Facts about the stages\<close>

lemma sort_remdups_Nil: "sort (remdups xs) = [] \<longleftrightarrow> xs = []"
proof -
  have "set (sort (remdups xs)) = set xs" by simp
  then show ?thesis by (metis set_empty)
qed

lemma fit_transform_Inl:
  "fit_transform docs = Inl e \<longleftrightarrow> e = EmptyVocabulary \<and> (\<forall>d \<in> set docs. analyze d = [])"
  by (auto simp: fit_transform_def Let_def sort_remdups_Nil)

lemma fit_transform_Inr:
  assumes "fit_transform docs = Inr (voc, M)"
  shows "M = map (\<lambda>d. map (\<lambda>f. count_list (analyze d) f) voc) docs"
    and "set voc = (\<Union>d \<in> set docs. set (analyze d))" and "voc \<noteq> []"
  using assms by (auto simp: fit_transform_def Let_def comp_def split: if_splits)

lemma cosine_similarity_nth:
  "i < length X \<Longrightarrow> j < length Y \<Longrightarrow>
   cosine_similarity X Y ! i ! j = dot (normalize (X ! i)) (normalize (Y ! j))"
  by (simp add: cosine_similarity_def)

lemma length_cosine_similarity: "length (cosine_similarity X Y) = length X"
  by (simp add: cosine_similarity_def)

lemma length_cosine_similarity_row:
  "i < length X \<Longrightarrow> length (cosine_similarity X Y ! i) = length Y"
  by (simp add: cosine_similarity_def)

lemma genre_sim_Inr:
  assumes "genre_sim movies = Inr sim"
  shows "length sim = length movies" and "\<forall>i < length movies. length (sim ! i) = length movies"
  using assms
  by (auto simp: genre_sim_def cosine_similarity_def fit_transform_def Let_def split: sum.splits if_splits)

lemma genre_sim_Inl:
  "genre_sim movies = Inl e \<longleftrightarrow>
     e = EmptyVocabulary \<and> (\<forall>m \<in> set movies. analyze (genres_literal m) = [])"
proof (cases "fit_transform (map genres_literal movies)")
  case (Inl e')
  then show ?thesis using fit_transform_Inl [of "map genres_literal movies" e']
    by (auto simp: genre_sim_def)
next
  case (Inr r)
  then have "\<not> (\<forall>d \<in> set (map genres_literal movies). analyze d = [])"
    using fit_transform_Inl [of "map genres_literal movies" EmptyVocabulary] by auto
  with Inr show ?thesis by (auto simp: genre_sim_def split: prod.splits)
qed

lemma getitem_not_equal:
  "map fst (filter snd (zip a (map (\<lambda>x. x \<noteq> t) a))) = filter (\<lambda>x. x \<noteq> t) a"
  by (induction a) auto

lemma similar_indexes_single:
  "similar_indexes sorted_ind [t] = Inr (filter (\<lambda>i. i \<noteq> t) (take 16 (sorted_ind ! t)))"
proof -
  let ?flat = "take 16 (sorted_ind ! t)"
  have "not_equal ?flat [t] = Inr (map (\<lambda>x. x \<noteq> t) ?flat)"
  proof (cases "length ?flat = 1")
    case True
    then obtain x where "?flat = [x]" by (cases ?flat) auto
    then show ?thesis by (simp add: not_equal_def)
  next
    case False
    then show ?thesis by (simp add: not_equal_def)
  qed
  then show ?thesis
    by (simp add: similar_indexes_def getitem_mask_def getitem_not_equal)
qed

lemma similar_indexes_none: "similar_indexes sorted_ind [] = Inr []"
  by (simp add: similar_indexes_def not_equal_def getitem_mask_def)

lemma argsort_ok_length: "argsort_ok argsort \<Longrightarrow> length (argsort v) = length v"
  by (metis argsort_ok_def card_lessThan distinct_card)

lemma argsort_ok_set: "argsort_ok argsort \<Longrightarrow> set (argsort v) = {..<length v}"
  by (simp add: argsort_ok_def)

lemma argsort_ok_distinct: "argsort_ok argsort \<Longrightarrow> distinct (argsort v)"
  by (simp add: argsort_ok_def)

lemma argsort_ok_descending:
  "argsort_ok argsort \<Longrightarrow> sorted_wrt (\<lambda>i j. v ! j \<le> v ! i) (rev (argsort v))"
proof -
  assume "argsort_ok argsort"
  then have "sorted (map (\<lambda>i. v ! i) (argsort v))" by (simp add: argsort_ok_def)
  then have "sorted_wrt (\<lambda>i j. v ! i \<le> v ! j) (argsort v)"
    by (simp add: sorted_map)
  then show ?thesis by (simp add: sorted_wrt_rev)
qed

lemma title_index_single:
  "title_index movies target = [t] \<Longrightarrow> t < length movies \<and> movie_title (movies ! t) = target"
proof -
  assume "title_index movies target = [t]"
  then have "t \<in> set (filter (\<lambda>i. movie_title (movies ! i) = target) [0..<length movies])"
    by (simp add: title_index_def)
  then show ?thesis by simp
qed


lemma post_single:
  assumes ok: "argsort_ok argsort" and sim: "genre_sim movies = Inr sim"
    and ti: "title_index movies target = [t]"
  shows "post argsort movies target =
    Inr (map (\<lambda>i. movie_poster (movies ! i))
          (filter (\<lambda>i. i \<noteq> t) (take 16 (rev (argsort (sim ! t))))))"
proof -
  let ?idx = "filter (\<lambda>i. i \<noteq> t) (take 16 (rev (argsort (sim ! t))))"
  from ti have t: "t < length movies" by (simp add: title_index_single)
  with sim have len: "length sim = length movies" "length (sim ! t) = length movies"
    by (simp_all add: genre_sim_Inr)
  from t len have row: "genre_sim_sorted_ind argsort sim ! t = rev (argsort (sim ! t))"
    by (simp add: genre_sim_sorted_ind_def)
  have "set ?idx \<subseteq> set (argsort (sim ! t))"
    by (auto dest: in_set_takeD)
  with ok len have "\<forall>i \<in> set ?idx. i < length movies"
    by (auto simp: argsort_ok_set)
  then have "iloc movies ?idx = Inr (map (\<lambda>i. movies ! i) ?idx)"
    by (simp add: iloc_def)
  with sim ti row show ?thesis
    by (simp add: post_def similar_indexes_single comp_def)
qed

lemma post_none:
  assumes "genre_sim movies = Inr sim" and "title_index movies target = []"
  shows "post argsort movies target = Inr []"
  using assms by (simp add: post_def similar_indexes_none iloc_def)

lemma post_Inl_genre_sim: "genre_sim movies = Inl e \<Longrightarrow> post argsort movies target = Inl e"
  by (simp add: post_def)

lemma length_concat_const:
  "(\<forall>x \<in> set xs. length (f x) = c) \<Longrightarrow> length (concat (map f xs)) = length xs * c"
  by (induction xs) auto

lemma length_title_index: "length (title_index movies target) \<le> length movies"
  by (metis diff_zero length_filter_le length_upt title_index_def)

lemma set_title_index: "i \<in> set (title_index movies target) \<Longrightarrow> i < length movies"
  by (simp add: title_index_def)

lemma similar_indexes_many:
  assumes ok: "argsort_ok argsort" and sim: "genre_sim movies = Inr sim"
    and m: "2 \<le> length (title_index movies target)"
  shows "similar_indexes (genre_sim_sorted_ind argsort sim) (title_index movies target)
           = Inl ShapeMismatch"
proof -
  let ?ti = "title_index movies target"
  let ?n = "length movies"
  let ?f = "\<lambda>t. take 16 (genre_sim_sorted_ind argsort sim ! t)"
  from m length_title_index [of movies target] have n: "2 \<le> ?n" by linarith
  have "\<forall>t \<in> set ?ti. length (?f t) = min ?n 16"
  proof
    fix t assume "t \<in> set ?ti"
    then have t: "t < ?n" by (rule set_title_index)
    with sim have "length sim = ?n" "length (sim ! t) = ?n" by (simp_all add: genre_sim_Inr)
    with t ok show "length (?f t) = min ?n 16"
      by (simp add: genre_sim_sorted_ind_def argsort_ok_length)
  qed
  then have len: "length (concat (map ?f ?ti)) = length ?ti * min ?n 16"
    by (rule length_concat_const)
  from n have "2 \<le> min ?n 16" by simp
  then have "2 * length ?ti \<le> length ?ti * min ?n 16"
    by (metis mult.commute mult_le_mono2)
  with m len have "length (concat (map ?f ?ti)) \<noteq> length ?ti"
    "length (concat (map ?f ?ti)) \<noteq> 1" "length ?ti \<noteq> 1"
    by linarith+
  then show ?thesis
    by (simp add: similar_indexes_def not_equal_def)
qed

lemma post_many:
  assumes "argsort_ok argsort" and "genre_sim movies = Inr sim"
    and "2 \<le> length (title_index movies target)"
  shows "post argsort movies target = Inl ShapeMismatch"
  using assms by (simp add: post_def similar_indexes_many)


lemma set_insert_index: "set (insert_index v vi ks) = insert vi (set ks)"
  by (induction ks) auto

lemma distinct_insert_index:
  "distinct (insert_index v vi ks) \<longleftrightarrow> vi \<notin> set ks \<and> distinct ks"
  by (induction ks) (auto simp: set_insert_index)

lemma descending_insert_index:
  "sorted_wrt (\<lambda>a b. v ! b \<le> v ! a) ks \<Longrightarrow> sorted_wrt (\<lambda>a b. v ! b \<le> v ! a) (insert_index v vi ks)"
proof (induction ks)
  case Nil
  then show ?case by simp
next
  case (Cons k ks)
  show ?case
  proof (cases "v ! vi < v ! k")
    case True
    with Cons show ?thesis by (auto simp: set_insert_index)
  next
    case False
    with Cons.prems show ?thesis by fastforce
  qed
qed

lemma insertion_prefix_Suc:
  "insertion_prefix v (Suc n) = insert_index v n (insertion_prefix v n)"
  by (simp add: insertion_prefix_def)

lemma set_insertion_prefix: "set (insertion_prefix v n) = {..<n}"
proof (induction n)
  case 0
  then show ?case by (simp add: insertion_prefix_def)
next
  case (Suc n)
  then show ?case
    by (simp add: insertion_prefix_Suc set_insert_index lessThan_Suc)
qed

lemma distinct_insertion_prefix: "distinct (insertion_prefix v n)"
proof (induction n)
  case 0
  then show ?case by (simp add: insertion_prefix_def)
next
  case (Suc n)
  then show ?case
    by (simp add: insertion_prefix_Suc distinct_insert_index set_insertion_prefix)
qed

lemma descending_insertion_prefix:
  "sorted_wrt (\<lambda>a b. v ! b \<le> v ! a) (insertion_prefix v n)"
proof (induction n)
  case 0
  then show ?case by (simp add: insertion_prefix_def)
next
  case (Suc n)
  then show ?case
    by (simp only: insertion_prefix_Suc descending_insert_index)
qed

lemma argsort_insertion_ok: "argsort_ok argsort_insertion"
proof -
  have "sorted (map (\<lambda>i. v ! i) (argsort_insertion v))" for v :: "real list"
  proof -
    have "sorted_wrt (\<lambda>a b. v ! a \<le> v ! b) (argsort_insertion v)"
      using descending_insertion_prefix [of v "length v"]
      by (simp only: argsort_insertion_def sorted_wrt_rev)
    then show ?thesis by (simp only: sorted_map)
  qed
  then show ?thesis
    by (simp add: argsort_ok_def argsort_insertion_def set_insertion_prefix distinct_insertion_prefix)
qed

lemma two_dim_bound:
  fixes a b c d :: real
  shows "a * b + c * d \<le> sqrt (a\<^sup>2 + c\<^sup>2) * sqrt (b\<^sup>2 + d\<^sup>2)"
proof -
  have "(a\<^sup>2 + c\<^sup>2) * (b\<^sup>2 + d\<^sup>2) - (a * b + c * d)\<^sup>2 = (a * d - b * c)\<^sup>2"
    by (simp add: power2_eq_square algebra_simps)
  moreover have "0 \<le> (a * d - b * c)\<^sup>2" by simp
  ultimately have "(a * b + c * d)\<^sup>2 \<le> (a\<^sup>2 + c\<^sup>2) * (b\<^sup>2 + d\<^sup>2)" by linarith
  then have "a * b + c * d \<le> sqrt ((a\<^sup>2 + c\<^sup>2) * (b\<^sup>2 + d\<^sup>2))"
    by (rule real_le_rsqrt)
  then show ?thesis by (simp add: real_sqrt_mult)
qed

lemma sum_squares_nonneg: "0 \<le> (\<Sum>a\<leftarrow>x. (a::real)\<^sup>2)"
  by (induction x) auto

lemma dot_bound: "dot x y \<le> sqrt (\<Sum>a\<leftarrow>x. a\<^sup>2) * sqrt (\<Sum>b\<leftarrow>y. b\<^sup>2)"
proof (induction x arbitrary: y)
  case Nil
  then show ?case by (simp add: dot_def)
next
  case (Cons a x)
  show ?case
  proof (cases y)
    case Nil
    then show ?thesis by (simp add: dot_def)
  next
    case (Cons b y')
    let ?A = "\<Sum>a\<leftarrow>x. a\<^sup>2" and ?B = "\<Sum>b\<leftarrow>y'. b\<^sup>2"
    have "dot (a # x) y = a * b + dot x y'" using Cons by (simp add: dot_def)
    also have "\<dots> \<le> a * b + sqrt ?A * sqrt ?B" using Cons.IH [of y'] by simp
    also have "\<dots> \<le> sqrt (a\<^sup>2 + (sqrt ?A)\<^sup>2) * sqrt (b\<^sup>2 + (sqrt ?B)\<^sup>2)"
      by (rule two_dim_bound)
    also have "\<dots> = sqrt (\<Sum>a\<leftarrow>a # x. a\<^sup>2) * sqrt (\<Sum>b\<leftarrow>y. b\<^sup>2)"
      using Cons by (simp add: sum_squares_nonneg)
    finally show ?thesis .
  qed
qed

lemma row_squares_nonneg: "0 \<le> (\<Sum>v\<leftarrow>x. (real v)\<^sup>2)"
  by (induction x) auto

lemma row_norm_nonneg: "0 \<le> row_norm x"
  by (simp add: row_norm_def row_squares_nonneg)

lemma row_norm_map: "row_norm x = sqrt (\<Sum>a\<leftarrow>map real x. a\<^sup>2)"
  by (simp add: row_norm_def comp_def)

lemma scale_pos: "0 < handle_zeros_in_scale (row_norm x)"
proof -
  have "0 \<le> row_norm x" by (rule row_norm_nonneg)
  then show ?thesis by (auto simp: handle_zeros_in_scale_def)
qed

lemma dot_scaled: "dot (map (\<lambda>v. v / s) x) (map (\<lambda>v. v / r) y) = dot x y / (s * r)"
proof (induction x arbitrary: y)
  case Nil
  then show ?case by (simp add: dot_def)
next
  case (Cons a x)
  then show ?case by (cases y) (simp_all add: dot_def add_divide_distrib)
qed

lemma cosine_formula:
  "dot (normalize x) (normalize y) = dot (map real x) (map real y) / (handle_zeros_in_scale (row_norm x) * handle_zeros_in_scale (row_norm y))"
  using dot_scaled [of "handle_zeros_in_scale (row_norm x)" "map real x" "handle_zeros_in_scale (row_norm y)" "map real y"]
  by (simp add: normalize_def comp_def)

lemma dot_nonneg: "0 \<le> dot (map real x) (map real y)"
proof (induction x arbitrary: y)
  case Nil
  then show ?case by (simp add: dot_def)
next
  case (Cons a x)
  show ?case
  proof (cases y)
    case Nil
    then show ?thesis by (simp add: dot_def)
  next
    case (Cons b y')
    with Cons.IH [of y'] show ?thesis by (simp add: dot_def)
  qed
qed

lemma cosine_nonneg: "0 \<le> dot (normalize x) (normalize y)"
  using scale_pos [of x] scale_pos [of y] dot_nonneg [of x y]
  by (simp add: cosine_formula)

lemma row_norm_le_scale: "row_norm x \<le> handle_zeros_in_scale (row_norm x)"
  by (simp add: handle_zeros_in_scale_def)

lemma cosine_le_1: "dot (normalize x) (normalize y) \<le> 1"
proof -
  have nn: "0 \<le> row_norm x" "0 \<le> row_norm y"
    by (rule row_norm_nonneg)+
  have "dot (map real x) (map real y) \<le> row_norm x * row_norm y"
    using dot_bound [of "map real x" "map real y"] by (simp add: row_norm_map)
  also have "\<dots> \<le> handle_zeros_in_scale (row_norm x) * handle_zeros_in_scale (row_norm y)"
    using nn scale_pos [of x] by (intro mult_mono row_norm_le_scale) auto
  finally show ?thesis
    using scale_pos [of x] scale_pos [of y] by (simp add: cosine_formula)
qed

lemma dot_self: "dot (map real x) (map real x) = (\<Sum>a\<leftarrow>map real x. a\<^sup>2)"
  by (induction x) (simp_all add: dot_def power2_eq_square)

lemma cosine_self:
  assumes "row_norm x \<noteq> 0"
  shows "dot (normalize x) (normalize x) = 1"
proof -
  have "row_norm x * row_norm x = (\<Sum>a\<leftarrow>map real x. a\<^sup>2)"
    using sum_squares_nonneg [of "map real x"] by (simp add: row_norm_map)
  moreover from assms have "row_norm x * row_norm x \<noteq> 0" by simp
  ultimately show ?thesis
    using assms by (simp add: cosine_formula handle_zeros_in_scale_def dot_self)
qed

lemma cosine_zero_row:
  assumes "row_norm x = 0"
  shows "dot (normalize x) (normalize y) = 0"
proof -
  have "0 \<le> dot (map real x) (map real y)" by (rule dot_nonneg)
  moreover have "dot (map real x) (map real y) \<le> row_norm x * row_norm y"
    using dot_bound [of "map real x" "map real y"] by (simp add: row_norm_map)
  ultimately have "dot (map real x) (map real y) = 0" using assms by simp
  then show ?thesis by (simp add: cosine_formula)
qed

lemma row_norm_0_iff: "row_norm x = 0 \<longleftrightarrow> (\<forall>v \<in> set x. v = 0)"
proof -
  have "(\<Sum>v\<leftarrow>x. (real v)\<^sup>2) = 0 \<longleftrightarrow> (\<forall>v \<in> set x. v = 0)"
  proof (induction x)
    case Nil
    then show ?case by simp
  next
    case (Cons a x)
    have "0 \<le> (\<Sum>v\<leftarrow>x. (real v)\<^sup>2)" by (rule row_squares_nonneg)
    with Cons show ?case by (auto simp: add_nonneg_eq_0_iff)
  qed
  then show ?thesis by (simp add: row_norm_def)
qed

lemma ranking_facts:
  assumes ok: "argsort_ok argsort" and sim: "genre_sim movies = Inr sim"
    and ti: "title_index movies target = [t]"
  shows "genre_sim_sorted_ind argsort sim ! t = rev (argsort (sim ! t))"
    and "distinct (genre_sim_sorted_ind argsort sim ! t)"
    and "set (genre_sim_sorted_ind argsort sim ! t) = {..<length movies}"
    and "length (genre_sim_sorted_ind argsort sim ! t) = length movies"
    and "sorted_wrt (\<lambda>i j. sim ! t ! j \<le> sim ! t ! i) (genre_sim_sorted_ind argsort sim ! t)"
proof -
  from ti have t: "t < length movies" by (simp add: title_index_single)
  with sim have len: "length sim = length movies" "length (sim ! t) = length movies"
    by (simp_all add: genre_sim_Inr)
  with t show row: "genre_sim_sorted_ind argsort sim ! t = rev (argsort (sim ! t))"
    by (simp add: genre_sim_sorted_ind_def)
  show "distinct (genre_sim_sorted_ind argsort sim ! t)"
    by (simp add: row argsort_ok_distinct [OF ok])
  show "set (genre_sim_sorted_ind argsort sim ! t) = {..<length movies}"
    by (simp add: row argsort_ok_set [OF ok] len)
  show "length (genre_sim_sorted_ind argsort sim ! t) = length movies"
    by (simp add: row argsort_ok_length [OF ok] len)
  show "sorted_wrt (\<lambda>i j. sim ! t ! j \<le> sim ! t ! i) (genre_sim_sorted_ind argsort sim ! t)"
    unfolding row by (rule argsort_ok_descending [OF ok])
qed

lemma sorted_wrt_take: "sorted_wrt P xs \<Longrightarrow> sorted_wrt P (take n xs)"
proof -
  assume "sorted_wrt P xs"
  then have "sorted_wrt P (take n xs @ drop n xs)" by simp
  then show ?thesis unfolding sorted_wrt_append by blast
qed

lemma selection_facts:
  assumes ok: "argsort_ok argsort" and sim: "genre_sim movies = Inr sim"
    and ti: "title_index movies target = [t]"
  shows "similar_indexes (genre_sim_sorted_ind argsort sim) (title_index movies target)
      = Inr (filter (\<lambda>i. i \<noteq> t) (take 16 (genre_sim_sorted_ind argsort sim ! t)))"
    and "post argsort movies target = Inr (map (\<lambda>i. movie_poster (movies ! i))
      (filter (\<lambda>i. i \<noteq> t) (take 16 (genre_sim_sorted_ind argsort sim ! t))))"
proof -
  show "similar_indexes (genre_sim_sorted_ind argsort sim) (title_index movies target)
      = Inr (filter (\<lambda>i. i \<noteq> t) (take 16 (genre_sim_sorted_ind argsort sim ! t)))"
    by (simp add: ti similar_indexes_single)
  show "post argsort movies target = Inr (map (\<lambda>i. movie_poster (movies ! i))
      (filter (\<lambda>i. i \<noteq> t) (take 16 (genre_sim_sorted_ind argsort sim ! t))))"
    unfolding ranking_facts(1) [OF assms] by (rule post_single [OF assms])
qed

lemma selection_valid:
  assumes ok: "argsort_ok argsort" and sim: "genre_sim movies = Inr sim"
    and ti: "title_index movies target = [t]"
  shows "distinct (filter (\<lambda>i. i \<noteq> t) (take 16 (genre_sim_sorted_ind argsort sim ! t)))"
    and "\<forall>i \<in> set (filter (\<lambda>i. i \<noteq> t) (take 16 (genre_sim_sorted_ind argsort sim ! t))).
           i < length movies \<and> i \<noteq> t"
proof -
  let ?rank = "genre_sim_sorted_ind argsort sim ! t"
  have "distinct (take 16 ?rank)"
    by (rule distinct_take [OF ranking_facts(2) [OF assms]])
  then show "distinct (filter (\<lambda>i. i \<noteq> t) (take 16 ?rank))" by (rule distinct_filter)
  show "\<forall>i \<in> set (filter (\<lambda>i. i \<noteq> t) (take 16 ?rank)). i < length movies \<and> i \<noteq> t"
  proof
    fix i assume "i \<in> set (filter (\<lambda>i. i \<noteq> t) (take 16 ?rank))"
    then have "i \<in> set (take 16 ?rank)" and ne: "i \<noteq> t" by simp_all
    then have "i \<in> set ?rank" using set_take_subset [of 16 ?rank] by blast
    then have "i < length movies" by (simp add: ranking_facts(3) [OF assms])
    with ne show "i < length movies \<and> i \<noteq> t" by simp
  qed
qed

lemma post_Inr_genre_sim:
  assumes "post argsort movies target = Inr posters"
  obtains sim where "genre_sim movies = Inr sim"
  using assms by (cases "genre_sim movies") (simp_all add: post_def)

text \<open>
  When the target is the title of exactly one row, the handler returns if and only if
  the vectorizer accepts the catalog, that is, some movie yields a feature.
\<close>

lemma post_returns:
  assumes "argsort_ok argsort" and "title_index movies target = [t]"
  shows "(\<exists>posters. post argsort movies target = Inr posters) \<longleftrightarrow>
         (\<exists>m \<in> set movies. analyze (genres_literal m) \<noteq> [])"
proof
  assume "\<exists>posters. post argsort movies target = Inr posters"
  then obtain posters where "post argsort movies target = Inr posters" ..
  then obtain sim where "genre_sim movies = Inr sim" by (rule post_Inr_genre_sim)
  then have "genre_sim movies \<noteq> Inl EmptyVocabulary" by simp
  then show "\<exists>m \<in> set movies. analyze (genres_literal m) \<noteq> []"
    by (simp add: genre_sim_Inl)
next
  assume "\<exists>m \<in> set movies. analyze (genres_literal m) \<noteq> []"
  then have "genre_sim movies \<noteq> Inl EmptyVocabulary" by (simp add: genre_sim_Inl)
  then obtain sim where "genre_sim movies = Inr sim"
    by (cases "genre_sim movies") (auto simp: genre_sim_Inl)
  from post_single [OF assms(1) this assms(2)]
  show "\<exists>posters. post argsort movies target = Inr posters" ..
qed

subsection \<open>The float64 matrix stays close to the exact one\<close>

lemma unit_roundoff_bounds: "0 < unit_roundoff" "unit_roundoff < 1"
  by (simp_all add: unit_roundoff_def)

lemma ratio_ge_1: "1 \<le> ratio"
  using unit_roundoff_bounds by (simp add: ratio_def)

lemma ratio_power_ge_1: "1 \<le> ratio ^ k"
  using ratio_ge_1 by (rule one_le_power)

lemma ratio_power_pos: "0 < ratio ^ k"
  using ratio_power_ge_1 [of k] by linarith

lemma close_to_refl: "0 \<le> x \<Longrightarrow> close_to k x x"
  using ratio_power_ge_1 [of k] by (simp add: close_to_def mult_le_cancel_right1)

lemma close_to_nonneg: "close_to k x y \<Longrightarrow> 0 \<le> x \<and> 0 \<le> y"
  by (simp add: close_to_def)

lemma close_to_zero: "close_to k x 0 \<Longrightarrow> x = 0"
  by (simp add: close_to_def)

lemma close_to_zero_iff: "close_to k x y \<Longrightarrow> x = 0 \<longleftrightarrow> y = 0"
  by (auto simp: close_to_def)

lemma close_to_sym: "close_to k x y \<Longrightarrow> close_to k y x"
  by (simp add: close_to_def)

lemma close_to_mono:
  assumes "close_to j x y" and "j \<le> k"
  shows "close_to k x y"
proof -
  from assms(2) have le: "ratio ^ j \<le> ratio ^ k"
    using ratio_ge_1 by (rule power_increasing)
  from assms(1) have x: "0 \<le> x" and y: "0 \<le> y"
    and a: "y \<le> ratio ^ j * x" and b: "x \<le> ratio ^ j * y"
    by (simp_all add: close_to_def)
  from le x have "ratio ^ j * x \<le> ratio ^ k * x" by (rule mult_right_mono)
  moreover from le y have "ratio ^ j * y \<le> ratio ^ k * y" by (rule mult_right_mono)
  ultimately show ?thesis using x y a b by (simp add: close_to_def)
qed

lemma close_to_trans:
  assumes "close_to j x y" and "close_to k y z"
  shows "close_to (j + k) x z"
proof -
  from assms have x: "0 \<le> x" and z: "0 \<le> z"
    and a: "y \<le> ratio ^ j * x" and b: "x \<le> ratio ^ j * y"
    and c: "z \<le> ratio ^ k * y" and d: "y \<le> ratio ^ k * z"
    by (simp_all add: close_to_def)
  have "z \<le> ratio ^ k * (ratio ^ j * x)"
    using c a ratio_power_pos [of k] by (meson mult_left_mono less_imp_le order_trans)
  moreover have "x \<le> ratio ^ j * (ratio ^ k * z)"
    using b d ratio_power_pos [of j] by (meson mult_left_mono less_imp_le order_trans)
  ultimately show ?thesis using x z by (simp add: close_to_def power_add mult_ac)
qed

lemma close_to_mult:
  assumes "close_to j a b" and "close_to k c d"
  shows "close_to (j + k) (a * c) (b * d)"
proof -
  from assms have nn: "0 \<le> a" "0 \<le> b" "0 \<le> c" "0 \<le> d"
    and a: "b \<le> ratio ^ j * a" and b: "a \<le> ratio ^ j * b"
    and c: "d \<le> ratio ^ k * c" and d: "c \<le> ratio ^ k * d"
    by (simp_all add: close_to_def)
  have "b * d \<le> (ratio ^ j * a) * (ratio ^ k * c)"
    using a c nn by (intro mult_mono) (simp_all add: ratio_power_pos less_imp_le)
  moreover have "a * c \<le> (ratio ^ j * b) * (ratio ^ k * d)"
    using b d nn by (intro mult_mono) (simp_all add: ratio_power_pos less_imp_le)
  ultimately show ?thesis using nn by (simp add: close_to_def power_add mult_ac)
qed

lemma close_to_inverse:
  assumes "close_to k c d" and "0 < c" and "0 < d"
  shows "close_to k (1 / c) (1 / d)"
proof -
  from assms have c: "d \<le> ratio ^ k * c" and d: "c \<le> ratio ^ k * d"
    by (simp_all add: close_to_def)
  have "1 / d \<le> ratio ^ k * (1 / c)"
    using d assms(2,3) by (simp add: field_simps)
  moreover have "1 / c \<le> ratio ^ k * (1 / d)"
    using c assms(2,3) by (simp add: field_simps)
  ultimately show ?thesis using assms(2,3) by (simp add: close_to_def)
qed

lemma close_to_divide:
  assumes "close_to j a b" and "close_to k c d" and "0 < c" and "0 < d"
  shows "close_to (j + k) (a / c) (b / d)"
  using close_to_mult [OF assms(1) close_to_inverse [OF assms(2,3,4)]] by simp

lemma close_to_sqrt:
  assumes "close_to (2 * k) x y"
  shows "close_to k (sqrt x) (sqrt y)"
proof -
  from assms have x: "0 \<le> x" and y: "0 \<le> y"
    and a: "y \<le> ratio ^ (2 * k) * x" and b: "x \<le> ratio ^ (2 * k) * y"
    by (simp_all add: close_to_def)
  have r: "sqrt (ratio ^ (2 * k)) = ratio ^ k"
  proof -
    have "ratio ^ (2 * k) = (ratio ^ k)\<^sup>2" by (simp add: power_mult [symmetric] mult.commute)
    then show ?thesis using ratio_power_pos [of k] by simp
  qed
  from a have "sqrt y \<le> sqrt (ratio ^ (2 * k) * x)" by simp
  then have "sqrt y \<le> ratio ^ k * sqrt x" by (simp add: real_sqrt_mult r)
  moreover from b have "sqrt x \<le> sqrt (ratio ^ (2 * k) * y)" by simp
  then have "sqrt x \<le> ratio ^ k * sqrt y" by (simp add: real_sqrt_mult r)
  ultimately show ?thesis using x y by (simp add: close_to_def)
qed

lemma close_to_add:
  assumes "close_to k a b" and "close_to k c d"
  shows "close_to k (a + c) (b + d)"
  using assms by (simp add: close_to_def distrib_left add_mono)

lemma close_to_round:
  assumes "rounding_ok fl" and "0 \<le> x"
  shows "close_to 1 (fl x) x"
proof -
  let ?u = unit_roundoff
  from assms(1) have "\<bar>fl x - x\<bar> \<le> ?u * \<bar>x\<bar>" unfolding rounding_ok_def by (rule spec)
  with assms(2) have "\<bar>fl x - x\<bar> \<le> ?u * x" by simp
  then have lo: "(1 - ?u) * x \<le> fl x" and hi: "fl x \<le> (1 + ?u) * x"
    by (simp_all add: algebra_simps abs_le_iff)
  have u: "0 < 1 - ?u" "0 < ?u" using unit_roundoff_bounds by simp_all
  from lo u assms(2) have nn: "0 \<le> fl x"
    by (meson less_imp_le mult_nonneg_nonneg order_trans)
  have "1 + ?u \<le> ratio" using u by (simp add: ratio_def field_simps)
  from this assms(2) have "(1 + ?u) * x \<le> ratio * x" by (rule mult_right_mono)
  with hi have a: "fl x \<le> ratio * x" by linarith
  have "ratio * ((1 - ?u) * x) = (1 + ?u) * x" using u by (simp add: ratio_def)
  moreover have "ratio * ((1 - ?u) * x) \<le> ratio * fl x"
    using lo ratio_ge_1 by (intro mult_left_mono) simp_all
  moreover have "x \<le> (1 + ?u) * x" using u assms(2) by (simp add: algebra_simps)
  ultimately have b: "x \<le> ratio * fl x" by linarith
  from nn assms(2) a b show ?thesis by (simp add: close_to_def)
qed

lemma f64_fold_close:
  assumes ok: "rounding_ok fl" and "\<forall>t \<in> set ts. 0 \<le> t" and "0 \<le> acc"
  shows "close_to (2 * length ts) (foldl (\<lambda>s t. fl (s + fl t)) acc ts) (acc + sum_list ts)"
  using assms(2,3)
proof (induction ts arbitrary: acc)
  case Nil
  then show ?case by (simp add: close_to_refl)
next
  case (Cons t ts)
  let ?acc = "fl (acc + fl t)"
  from Cons.prems have t: "0 \<le> t" and ts: "\<forall>t \<in> set ts. 0 \<le> t" by simp_all
  have rt: "close_to 1 (fl t) t" using ok t by (rule close_to_round)
  have "close_to 1 acc acc" using Cons.prems(2) by (rule close_to_refl)
  from this rt have inner: "close_to 1 (acc + fl t) (acc + t)" by (rule close_to_add)
  then have "0 \<le> acc + fl t" by (simp add: close_to_def)
  with ok have "close_to 1 ?acc (acc + fl t)" by (rule close_to_round)
  from this inner have step: "close_to (1 + 1) ?acc (acc + t)" by (rule close_to_trans)
  then have nn: "0 \<le> ?acc" by (simp add: close_to_def)
  have "0 \<le> sum_list ts" using ts by (simp add: sum_list_nonneg)
  then have "close_to (1 + 1) (sum_list ts) (sum_list ts)" by (rule close_to_refl)
  with step have "close_to (1 + 1) (?acc + sum_list ts) ((acc + t) + sum_list ts)"
    by (rule close_to_add)
  with Cons.IH [OF ts nn]
  have "close_to (2 * length ts + (1 + 1)) (foldl (\<lambda>s t. fl (s + fl t)) ?acc ts)
      ((acc + t) + sum_list ts)"
    by (rule close_to_trans)
  then show ?case by (simp add: add.assoc)
qed

lemma f64_sum_close:
  assumes "rounding_ok fl" and "\<forall>t \<in> set ts. 0 \<le> t"
  shows "close_to (2 * length ts) (f64_sum fl ts) (sum_list ts)"
  using f64_fold_close [OF assms, of 0] by (simp add: f64_sum_def)

lemma sum_list_close:
  "list_all2 (close_to k) ts ts' \<Longrightarrow> close_to k (sum_list ts) (sum_list ts')"
proof (induction rule: list_all2_induct)
  case Nil
  then show ?case by (simp add: close_to_refl)
next
  case (Cons t ts t' ts')
  then show ?case by (simp add: close_to_add)
qed

lemma row_norm_nonzero: "v \<noteq> 0 \<Longrightarrow> v \<in> set x \<Longrightarrow> row_norm x \<noteq> 0"
  unfolding row_norm_0_iff by (rule notI, drule bspec, assumption, simp)

lemma list_all2_mapI:
  "(\<forall>v \<in> set x. P (f v) (g v)) \<Longrightarrow> list_all2 P (map f x) (map g x)"
  by (simp add: list_all2_map1 list_all2_map2 list_all2_same)

lemma sum_squares_filter:
  "(\<Sum>v\<leftarrow>filter (\<lambda>v. v \<noteq> 0) x. real v * real v) = (\<Sum>v\<leftarrow>x. (real v)\<^sup>2)"
  by (induction x) (simp_all add: power2_eq_square)

lemma f64_sum_squares_close:
  assumes ok: "rounding_ok fl"
  shows "close_to (2 * (length x + 1)) (f64_sum_squares fl x) (\<Sum>v\<leftarrow>x. (real v)\<^sup>2)"
proof -
  let ?nz = "filter (\<lambda>v. v \<noteq> 0) x"
  let ?sq = "map (\<lambda>d. d * d) (f64_stored fl x)"
  have each: "close_to (1 + 1) (fl (real v) * fl (real v)) (real v * real v)" for v
  proof -
    have "close_to 1 (fl (real v)) (real v)" using ok by (rule close_to_round) simp
    from this this show ?thesis by (rule close_to_mult)
  qed
  have "list_all2 (close_to (1 + 1)) (map (\<lambda>v. fl (real v) * fl (real v)) ?nz)
      (map (\<lambda>v. real v * real v) ?nz)"
    by (rule list_all2_mapI, rule ballI, rule each)
  moreover have "?sq = map (\<lambda>v. fl (real v) * fl (real v)) ?nz"
    by (simp add: f64_stored_def)
  ultimately have all2: "list_all2 (close_to (1 + 1)) ?sq (map (\<lambda>v. real v * real v) ?nz)"
    by (simp only:)
  then have "close_to (1 + 1) (sum_list ?sq) (\<Sum>v\<leftarrow>?nz. real v * real v)"
    by (rule sum_list_close)
  then have a: "close_to (1 + 1) (sum_list ?sq) (\<Sum>v\<leftarrow>x. (real v)\<^sup>2)"
    by (simp only: sum_squares_filter)
  have nn: "\<forall>t \<in> set ?sq. 0 \<le> t" by auto
  have "close_to (2 * length ?sq) (f64_sum fl ?sq) (sum_list ?sq)"
    using ok nn by (rule f64_sum_close)
  from this a have "close_to (2 * length ?sq + (1 + 1)) (f64_sum fl ?sq) (\<Sum>v\<leftarrow>x. (real v)\<^sup>2)"
    by (rule close_to_trans)
  moreover have "length ?sq \<le> length x" by (simp add: f64_stored_def)
  then have "2 * length ?sq + (1 + 1) \<le> 2 * (length x + 1)" by simp
  ultimately show ?thesis unfolding f64_sum_squares_def by (rule close_to_mono)
qed

lemma f64_normalize_close:
  assumes ok: "rounding_ok fl"
  shows "list_all2 (close_to (length x + 4)) (f64_normalize fl x) (normalize x)"
proof -
  let ?n = "length x"
  let ?s = "\<Sum>v\<leftarrow>x. (real v)\<^sup>2"
  let ?sf = "f64_sum_squares fl x"
  have cs: "close_to (2 * (?n + 1)) ?sf ?s" using ok by (rule f64_sum_squares_close)
  have entry: "close_to (?n + 4)
      (if v = 0 then 0 else if ?sf = 0 then fl (real v) else fl (fl (real v) / fl (sqrt ?sf)))
      (real v / handle_zeros_in_scale (row_norm x))"
    if v: "v \<in> set x" for v
  proof (cases "v = 0")
    case True
    then show ?thesis by (simp add: close_to_refl)
  next
    case False
    from False v have rn: "row_norm x \<noteq> 0" by (rule row_norm_nonzero)
    then have spos: "0 < sqrt ?s" using row_norm_nonneg [of x] by (simp add: row_norm_def)
    then have "?s \<noteq> 0" by auto
    then have sf: "?sf \<noteq> 0" using close_to_zero_iff [OF cs] by simp
    from cs have rs: "close_to (?n + 1) (sqrt ?sf) (sqrt ?s)" by (rule close_to_sqrt)
    then have "0 \<le> sqrt ?sf" by (simp add: close_to_def)
    with ok have "close_to 1 (fl (sqrt ?sf)) (sqrt ?sf)" by (rule close_to_round)
    from this rs have N: "close_to (1 + (?n + 1)) (fl (sqrt ?sf)) (sqrt ?s)"
      by (rule close_to_trans)
    from spos have "sqrt ?s \<noteq> 0" by simp
    then have "fl (sqrt ?sf) \<noteq> 0" using close_to_zero_iff [OF N] by simp
    with N have Npos: "0 < fl (sqrt ?sf)" by (simp add: close_to_def)
    have "close_to 1 (fl (real v)) (real v)" using ok by (rule close_to_round) simp
    from this N Npos spos
    have q: "close_to (1 + (1 + (?n + 1))) (fl (real v) / fl (sqrt ?sf)) (real v / sqrt ?s)"
      by (rule close_to_divide)
    then have "0 \<le> fl (real v) / fl (sqrt ?sf)" by (simp add: close_to_def)
    with ok have "close_to 1 (fl (fl (real v) / fl (sqrt ?sf))) (fl (real v) / fl (sqrt ?sf))"
      by (rule close_to_round)
    from this q
    have "close_to (1 + (1 + (1 + (?n + 1)))) (fl (fl (real v) / fl (sqrt ?sf))) (real v / sqrt ?s)"
      by (rule close_to_trans)
    then have "close_to (?n + 4) (fl (fl (real v) / fl (sqrt ?sf))) (real v / sqrt ?s)"
      by (rule close_to_mono) simp
    with False sf rn show ?thesis
      by (simp add: handle_zeros_in_scale_def row_norm_def)
  qed
  show ?thesis
    unfolding f64_normalize_def normalize_def Let_def
    by (rule list_all2_mapI, rule ballI, rule entry)
qed

lemma dot_terms_close:
  assumes "list_all2 (close_to k) a c" and "list_all2 (close_to k) b e"
  shows "close_to (k + k)
    (sum_list (map (\<lambda>(p, q). p * q) (filter (\<lambda>(p, q). p \<noteq> 0 \<and> q \<noteq> 0) (zip a b))))
    (dot c e)"
  using assms
proof (induction arbitrary: b e rule: list_all2_induct)
  case Nil
  then show ?case by (simp add: dot_def close_to_refl)
next
  case (Cons p a r c)
  show ?case
  proof (cases b)
    case Nil
    with Cons.prems have "e = []" by simp
    with Nil show ?thesis by (simp add: dot_def close_to_refl)
  next
    case b: (Cons q b')
    with Cons.prems obtain t e' where e: "e = t # e'"
      and qt: "close_to k q t" and rest: "list_all2 (close_to k) b' e'"
      by (auto simp: list_all2_Cons1)
    note IH = Cons.IH [OF rest]
    have d: "dot (r # c) (t # e') = r * t + dot c e'" by (simp add: dot_def)
    show ?thesis
    proof (cases "p \<noteq> 0 \<and> q \<noteq> 0")
      case True
      then have f: "filter (\<lambda>(p, q). p \<noteq> 0 \<and> q \<noteq> 0) (zip (p # a) (q # b'))
          = (p, q) # filter (\<lambda>(p, q). p \<noteq> 0 \<and> q \<noteq> 0) (zip a b')"
        by simp
      from Cons.hyps(1) qt have "close_to (k + k) (p * q) (r * t)" by (rule close_to_mult)
      from this IH have "close_to (k + k)
          (p * q + sum_list (map (\<lambda>(p, q). p * q)
              (filter (\<lambda>(p, q). p \<noteq> 0 \<and> q \<noteq> 0) (zip a b'))))
          (r * t + dot c e')"
        by (rule close_to_add)
      then show ?thesis unfolding b e f d by simp
    next
      case False
      then have f: "filter (\<lambda>(p, q). p \<noteq> 0 \<and> q \<noteq> 0) (zip (p # a) (q # b'))
          = filter (\<lambda>(p, q). p \<noteq> 0 \<and> q \<noteq> 0) (zip a b')"
        by auto
      from False have "r = 0 \<or> t = 0"
        using close_to_zero_iff [OF Cons.hyps(1)] close_to_zero_iff [OF qt] by auto
      then have "r * t = 0" by auto
      then have d': "dot (r # c) (t # e') = dot c e'" by (simp add: d)
      from IH show ?thesis unfolding b e f d' .
    qed
  qed
qed

lemma f64_dot_close:
  assumes ok: "rounding_ok fl"
    and ac: "list_all2 (close_to k) a c" and be: "list_all2 (close_to k) b e"
  shows "close_to (2 * length a + (k + k)) (f64_dot fl a b) (dot c e)"
proof -
  let ?ts = "map (\<lambda>(p, q). p * q) (filter (\<lambda>(p, q). p \<noteq> 0 \<and> q \<noteq> 0) (zip a b))"
  have a_nn: "\<forall>p \<in> set a. 0 \<le> p"
    using ac by (auto simp: list_all2_conv_all_nth in_set_conv_nth close_to_def)
  have b_nn: "\<forall>q \<in> set b. 0 \<le> q"
    using be by (auto simp: list_all2_conv_all_nth in_set_conv_nth close_to_def)
  have nn: "\<forall>t \<in> set ?ts. 0 \<le> t"
  proof
    fix t assume "t \<in> set ?ts"
    then obtain p q where "(p, q) \<in> set (zip a b)" and t: "t = p * q" by auto
    then have "p \<in> set a" "q \<in> set b" by (auto dest: set_zip_leftD set_zip_rightD)
    with a_nn b_nn t show "0 \<le> t" by simp
  qed
  have "length (filter (\<lambda>(p, q). p \<noteq> 0 \<and> q \<noteq> 0) (zip a b)) \<le> length (zip a b)"
    by (rule length_filter_le)
  then have len: "2 * length ?ts \<le> 2 * length a" by simp
  have "close_to (2 * length ?ts) (f64_sum fl ?ts) (sum_list ?ts)"
    using ok nn by (rule f64_sum_close)
  then have "close_to (2 * length a) (f64_sum fl ?ts) (sum_list ?ts)"
    using len by (rule close_to_mono)
  from this dot_terms_close [OF ac be] show ?thesis
    unfolding f64_dot_def by (rule close_to_trans)
qed

lemma length_f64_normalize: "length (f64_normalize fl x) = length x"
  by (simp add: f64_normalize_def Let_def)

lemma cosine_f64_close:
  assumes ok: "rounding_ok fl" and len: "length y = length x"
  shows "close_to (4 * length x + 8)
    (f64_dot fl (f64_normalize fl x) (f64_normalize fl y)) (dot (normalize x) (normalize y))"
proof -
  have x: "list_all2 (close_to (length x + 4)) (f64_normalize fl x) (normalize x)"
    using ok by (rule f64_normalize_close)
  have y: "list_all2 (close_to (length x + 4)) (f64_normalize fl y) (normalize y)"
    using f64_normalize_close [OF ok, of y] by (simp add: len)
  from f64_dot_close [OF ok x y] show ?thesis
    by (rule close_to_mono) (simp add: length_f64_normalize)
qed

lemma round_even_error: "\<bar>of_int (round_even y) - y\<bar> \<le> 1 / 2"
proof -
  have "of_int \<lfloor>y\<rfloor> \<le> y" "y < of_int \<lfloor>y\<rfloor> + 1" by linarith+
  then show ?thesis by (auto simp: round_even_def Let_def)
qed

lemma round_even_eqI:
  assumes "of_int m - 1 / 2 < y" and "y < of_int m + 1 / 2"
  shows "round_even y = m"
proof (cases "of_int m \<le> y")
  case True
  with assms(2) have "\<lfloor>y\<rfloor> = m" by linarith
  with assms(2) show ?thesis by (simp add: round_even_def Let_def)
next
  case False
  with assms(1) have f: "\<lfloor>y\<rfloor> = m - 1" by linarith
  with assms(1) show ?thesis by (simp add: round_even_def Let_def)
qed

lemma two_powr_floor_log:
  assumes "0 < x"
  shows "2 powr (of_int \<lfloor>log 2 x\<rfloor>) \<le> x"
proof -
  have "of_int \<lfloor>log 2 x\<rfloor> \<le> log 2 x" by simp
  then have "2 powr (of_int \<lfloor>log 2 x\<rfloor>) \<le> 2 powr (log 2 x)" by (simp add: powr_mono)
  with assms show ?thesis by simp
qed

lemma round64_ok: "rounding_ok round64"
  unfolding rounding_ok_def
proof
  fix x :: real
  show "\<bar>round64 x - x\<bar> \<le> unit_roundoff * \<bar>x\<bar>"
  proof (cases "x = 0")
    case True
    then show ?thesis by (simp add: round64_def)
  next
    case False
    define L where "L = (of_int \<lfloor>log 2 \<bar>x\<bar>\<rfloor> :: real)"
    define p where "p = 2 powr (L - 52)"
    define y where "y = \<bar>x\<bar> / p"
    define r where "r = (of_int (round_even y) :: real)"
    have p: "0 < p" by (simp add: p_def)
    have r64: "round64 x = sgn x * (r * p)"
      using False by (simp add: round64_def Let_def r_def y_def p_def L_def)
    have x: "sgn x * (y * p) = x" using p by (simp add: y_def sgn_mult_abs)
    have "round64 x - x = sgn x * (r * p) - sgn x * (y * p)" by (simp only: r64 x)
    also have "\<dots> = sgn x * ((r - y) * p)" by (simp add: algebra_simps)
    finally have "round64 x - x = sgn x * ((r - y) * p)" .
    then have "\<bar>round64 x - x\<bar> = \<bar>r - y\<bar> * p"
      using False p by (simp add: abs_mult abs_sgn_eq)
    also have "\<dots> \<le> 1 / 2 * p"
      using round_even_error [of y] p by (intro mult_right_mono) (simp_all add: r_def)
    also have "\<dots> = unit_roundoff * (2 powr L)"
      by (simp add: p_def powr_diff unit_roundoff_def)
    also have "\<dots> \<le> unit_roundoff * \<bar>x\<bar>"
      using two_powr_floor_log [of "\<bar>x\<bar>"] False unit_roundoff_bounds(1)
      by (intro mult_left_mono) (simp_all add: L_def)
    finally show ?thesis .
  qed
qed

lemma round64_cert:
  fixes m :: int
  assumes x: "0 < x" and m: "2 ^ 52 \<le> m" "m < 2 ^ 53"
    and lo: "2 ^ 52 \<le> x * 2 ^ k"
    and a: "of_int m - 1 / 2 < x * 2 ^ k" and b: "x * 2 ^ k < of_int m + 1 / 2"
  shows "round64 x = of_int m / 2 ^ k"
proof -
  have pk: "(2::real) powr (- real k) = 1 / 2 ^ k"
    by (simp add: powr_minus powr_realpow inverse_eq_divide)
  have p52: "(2::real) powr (52 - real k) = 2 ^ 52 / 2 ^ k"
    by (simp add: powr_diff powr_realpow)
  have p53: "(2::real) powr (53 - real k) = 2 ^ 53 / 2 ^ k"
    by (simp add: powr_diff powr_realpow)
  from m(2) have "of_int m + 1 / 2 < (2 ^ 53 :: real)"
  proof -
    from m(2) have "m + 1 \<le> 2 ^ 53" by simp
    then have "(of_int (m + 1) :: real) \<le> of_int (2 ^ 53)" by (simp only: of_int_le_iff)
    then show ?thesis by simp
  qed
  with b have hi: "x * 2 ^ k < 2 ^ 53" by linarith
  have "2 powr (52 - real k) \<le> x" using lo by (simp add: p52 field_simps)
  then have l1: "52 - real k \<le> log 2 x" using x by (simp add: le_log_iff)
  have "x < 2 powr (53 - real k)" using hi by (simp add: p53 field_simps)
  then have l2: "log 2 x < 53 - real k" using x by (simp add: log_less_iff)
  have "\<lfloor>log 2 x\<rfloor> = 52 - int k"
    using l1 l2 by (intro floor_unique) simp_all
  then have e: "of_int \<lfloor>log 2 x\<rfloor> - 52 = - real k" by simp
  have "round_even (x * 2 ^ k) = m" using a b by (rule round_even_eqI)
  then show ?thesis using x by (simp add: round64_def Let_def e pk)
qed

lemma cosine_similarity_f64_nth:
  "i < length X \<Longrightarrow> j < length Y \<Longrightarrow>
   cosine_similarity_f64 fl X Y ! i ! j = f64_dot fl (f64_normalize fl (X ! i)) (f64_normalize fl (Y ! j))"
  by (simp add: cosine_similarity_f64_def)

lemma fit_transform_rows:
  assumes "fit_transform docs = Inr (voc, M)" and "i < length docs"
  shows "length M = length docs" and "length (M ! i) = length voc"
  using assms fit_transform_Inr(1) [OF assms(1)] by simp_all

subsection \<open>Evaluating the examples\<close>

lemma post_insertion:
  assumes "genre_sim movies = Inr sim" and "title_index movies target = [t]"
    and "argsort_insertion (sim ! t) = a"
  shows "post argsort_insertion movies target =
    Inr (map (\<lambda>i. movie_poster (movies ! i)) (filter (\<lambda>i. i \<noteq> t) (take 16 (rev a))))"
  using post_single [OF argsort_insertion_ok assms(1,2)] assms(3) by simp

lemma cosine_matrix:
  "cosine_similarity X Y =
     map (\<lambda>x. map (\<lambda>y. dot (map real x) (map real y) /
       (handle_zeros_in_scale (row_norm x) * handle_zeros_in_scale (row_norm y))) Y) X"
  by (simp add: cosine_similarity_def cosine_formula)

lemmas cosine_eval = cosine_matrix dot_def row_norm_def handle_zeros_in_scale_def

lemmas argsort_eval = argsort_insertion_def insertion_prefix_def upt_rec

text \<open>The catalog of the scenario.\<close>

lemma fit_alien:
  "fit_transform (map genres_literal alien_catalog) =
     Inr ([''animationfamily'', ''fi'', ''horror'', ''horrorsci'', ''horrorsci fi''],
          [[0, 1, 0, 1, 1], [0, 0, 1, 0, 0], [1, 0, 0, 0, 0]])"
  by code_simp

lemma genre_sim_alien: "genre_sim alien_catalog = Inr [[1, 0, 0], [0, 1, 0], [0, 0, 1]]"
  by (simp add: genre_sim_def fit_alien cosine_eval)

lemma title_index_alien:
  "title_index alien_catalog ''Alien'' = [0]"
  "title_index alien_catalog ''Saw'' = [1]"
  "title_index alien_catalog ''Up'' = [2]"
  "title_index alien_catalog ''Jaws'' = []"
  by code_simp+

lemma argsort_alien:
  "argsort_insertion ([[1, 0, 0], [0, 1, 0], [0, 0, 1]] ! 0) = [1, 2, 0]"
  "argsort_insertion ([[1, 0, 0], [0, 1, 0], [0, 0, 1]] ! 1) = [0, 2, 1]"
  "argsort_insertion ([[1, 0, 0], [0, 1, 0], [0, 0, 1]] ! 2) = [0, 1, 2]"
  by (simp_all add: argsort_eval)

lemma post_alien: "post argsort_insertion alien_catalog ''Alien'' = Inr [''p3'', ''p2'']"
  using post_insertion [OF genre_sim_alien title_index_alien(1) argsort_alien(1)]
  by (simp add: alien_catalog_def)

text \<open>The catalog with a space after every comma.\<close>

lemma fit_spaced:
  "fit_transform (map genres_literal spaced_catalog) =
     Inr ([''animation'', ''animation family'', ''family'', ''fi'', ''horror'',
           ''horror sci'', ''sci'', ''sci fi''],
          [[0, 0, 0, 1, 1, 1, 1, 1], [0, 0, 0, 0, 1, 0, 0, 0], [1, 1, 1, 0, 0, 0, 0, 0]])"
  by code_simp

lemma genre_sim_spaced:
  "genre_sim spaced_catalog = Inr [[1, 1 / sqrt 5, 0], [1 / sqrt 5, 1, 0], [0, 0, 1]]"
  by (simp add: genre_sim_def fit_spaced cosine_eval)

lemma title_index_spaced: "title_index spaced_catalog ''Alien'' = [0]"
  by code_simp

lemma argsort_spaced:
  "argsort_insertion ([[1, 1 / sqrt 5, 0], [1 / sqrt 5, 1, 0], [0, 0, 1]] ! 0) = [2, 1, 0]"
  by (simp add: argsort_eval)

lemma post_spaced: "post argsort_insertion spaced_catalog ''Alien'' = Inr [''p2'', ''p3'']"
  using post_insertion [OF genre_sim_spaced title_index_spaced argsort_spaced]
  by (simp add: spaced_catalog_def)

text \<open>The two movies with one poster.\<close>

lemma fit_twin:
  "fit_transform (map genres_literal twin_catalog) = Inr ([''horror''], [[1], [1]])"
  by code_simp

lemma genre_sim_twin: "genre_sim twin_catalog = Inr [[1, 1], [1, 1]]"
  by (simp add: genre_sim_def fit_twin cosine_eval)

lemma title_index_twin:
  "title_index twin_catalog ''Alien'' = [0]"
  "title_index twin_catalog ''Saw'' = [1]"
  by code_simp+

lemma argsort_twin:
  "argsort_insertion ([[1, 1], [1, 1]] ! 0) = [0, 1]"
  "argsort_insertion ([[1, 1], [1, 1]] ! 1) = [0, 1]"
  by (simp_all add: argsort_eval)

text \<open>The catalog with the one-letter genre.\<close>

lemma fit_letter:
  "fit_transform (map genres_literal letter_catalog) = Inr ([''horror''], [[0], [1]])"
  by code_simp

lemma genre_sim_letter: "genre_sim letter_catalog = Inr [[0, 0], [0, 1]]"
  by (simp add: genre_sim_def fit_letter cosine_eval)

text \<open>The seventeen dramas.\<close>

lemma fit_drama:
  "fit_transform (map genres_literal drama_catalog) = Inr ([''drama''],
      [[1], [1], [1], [1], [1], [1], [1], [1], [1], [1], [1], [1], [1], [1], [1], [1], [1]])"
  by code_simp

lemma title_index_drama: "title_index drama_catalog ''M00'' = [0]"
  by code_simp

lemma row_drama:
  "cosine_similarity
      [[1], [1], [1], [1], [1], [1], [1], [1], [1], [1], [1], [1], [1], [1], [1], [1], [1]]
      [[1], [1], [1], [1], [1], [1], [1], [1], [1], [1], [1], [1], [1], [1], [1], [1], [1]] ! 0 =
      [1, 1, 1, 1, 1, 1, 1, 1, 1, 1, 1, 1, 1, 1, 1, 1, 1]"
  by (simp add: cosine_eval)

lemma genre_sim_drama: "genre_sim drama_catalog = Inr 
  (cosine_similarity
    [[1], [1], [1], [1], [1], [1], [1], [1], [1], [1], [1], [1], [1], [1], [1], [1], [1]]
    [[1], [1], [1], [1], [1], [1], [1], [1], [1], [1], [1], [1], [1], [1], [1], [1], [1]])"
  by (simp add: genre_sim_def fit_drama)

lemma argsort_drama: "argsort_insertion
    [1, 1, 1, 1, 1, 1, 1, 1, 1, 1, 1, 1, 1, 1, 1, 1, 1] =
    [0, 1, 2, 3, 4, 5, 6, 7, 8, 9, 10, 11, 12, 13, 14, 15, 16]"
  by (simp add: argsort_eval)

text \<open>The similarity of Alien with itself in float64, step by step.\<close>

lemma round64_small:
  "round64 1 = 1" "round64 2 = 2" "round64 3 = 3"
  using round64_cert [of 1 "2 ^ 52" 52] round64_cert [of 2 "2 ^ 52" 51]
    round64_cert [of 3 "3 * 2 ^ 51" 51]
  by simp_all

lemma round64_sqrt3: "round64 (sqrt 3) = of_int 7800463371553962 / 2 ^ 52"
proof (rule round64_cert)
  show "0 < sqrt 3" by simp
  show "(2::int) ^ 52 \<le> 7800463371553962" "(7800463371553962::int) < 2 ^ 53" by simp_all
  have "1 \<le> sqrt 3" by simp
  then show "2 ^ 52 \<le> sqrt 3 * 2 ^ 52" by simp
  have "((7800463371553962 - 1 / 2) / 2 ^ 52 :: real)\<^sup>2 < 3" by (simp add: power2_eq_square)
  then have "(7800463371553962 - 1 / 2) / 2 ^ 52 < sqrt 3" by (rule real_less_rsqrt)
  then show "of_int 7800463371553962 - 1 / 2 < sqrt 3 * 2 ^ 52" by (simp add: field_simps)
  have "3 < ((7800463371553962 + 1 / 2) / 2 ^ 52 :: real)\<^sup>2" by (simp add: power2_eq_square)
  then have "sqrt 3 < (7800463371553962 + 1 / 2) / 2 ^ 52"
    by (intro real_less_lsqrt) simp_all
  then show "sqrt 3 * 2 ^ 52 < of_int 7800463371553962 + 1 / 2" by (simp add: field_simps)
qed

lemma alien_self_f64:
  "f64_dot round64 (f64_normalize round64 [0, 1, 0, 1, 1]) (f64_normalize round64 [0, 1, 0, 1, 1])
     = 1 + 1 / 2 ^ 52"
proof -
  define N :: real where "N = 7800463371553962 / 2 ^ 52"
  define a :: real where "a = 5200308914369309 / 2 ^ 53"
  define p :: real where "p = 6004799503160663 / 2 ^ 54"
  have rN: "round64 (sqrt 3) = N" by (simp add: N_def round64_sqrt3)
  have ra: "round64 (1 / N) = a"
  proof -
    have "round64 (1 / N) = of_int 5200308914369309 / 2 ^ 53"
      by (rule round64_cert) (simp_all add: N_def)
    then show ?thesis by (simp add: a_def)
  qed
  have rp: "round64 (a * a) = p"
  proof -
    have "round64 (a * a) = of_int 6004799503160663 / 2 ^ 54"
      by (rule round64_cert) (simp_all add: a_def)
    then show ?thesis by (simp add: p_def)
  qed
  have rp1: "round64 p = p"
  proof -
    have "round64 p = of_int 6004799503160663 / 2 ^ 54"
      by (rule round64_cert) (simp_all add: p_def)
    then show ?thesis by (simp add: p_def)
  qed
  have rp2: "round64 (p + p) = p + p"
  proof -
    have "round64 (p + p) = of_int 6004799503160663 / 2 ^ 53"
      by (rule round64_cert) (simp_all add: p_def)
    then show ?thesis by (simp add: p_def)
  qed
  have rp3: "round64 (p + p + p) = 1 + 1 / 2 ^ 52"
  proof -
    have "round64 (p + p + p) = of_int 4503599627370497 / 2 ^ 52"
      by (rule round64_cert) (simp_all add: p_def)
    then show ?thesis by simp
  qed
  have a0: "a \<noteq> 0" by (simp add: a_def)
  have ss: "f64_sum_squares round64 [0, 1, 0, 1, 1] = 3"
    by (simp add: f64_sum_squares_def f64_stored_def f64_sum_def round64_small)
  have nz: "f64_normalize round64 [0, 1, 0, 1, 1] = [0, a, 0, a, a]"
    unfolding f64_normalize_def ss by (simp add: round64_small rN ra)
  have "f64_dot round64 [0, a, 0, a, a] [0, a, 0, a, a]
      = round64 (round64 (round64 (0 + round64 (a * a)) + round64 (a * a)) + round64 (a * a))"
    using a0 by (simp add: f64_dot_def f64_sum_def)
  also have "\<dots> = round64 (round64 (round64 p + p) + p)" by (simp only: rp add_0)
  also have "\<dots> = 1 + 1 / 2 ^ 52" by (simp only: rp1 rp2 rp3)
  finally show ?thesis by (simp only: nz)
qed

section \<open>The claims\<close>

text \<open>
  Claim C1. With the catalog Alien (p1, "Horror,Sci-Fi"), Saw (p2, "Horror"), Up (p3,
  "Animation,Family") and the target "Alien", the result is said to hold p2 ahead of
  p3. The handler glues "Horror,Sci-Fi" to the one word "HorrorSci-Fi", so Alien shares
  no feature with Saw; Saw and Up are both at similarity 0, and the insertion sort
  numpy runs on a row of three entries puts Up first.
\<close>

theorem alien_scenario:
  "genre_sim alien_catalog = Inr [[1, 0, 0], [0, 1, 0], [0, 0, 1]] \<and>
   post argsort_insertion alien_catalog ''Alien'' = Inr [''p3'', ''p2'']"
  using genre_sim_alien post_alien by (intro conjI)

text \<open>
  Claim C2. Every genre string is said to be split into its genre tokens, so that the
  vocabulary holds every single genre and two movies that share a genre are both
  nonzero on its feature. On the catalog of the scenario the vocabulary has neither
  "sci" nor "animation" nor "family", and the column of "horror" (the third) is 0 for
  Alien and 1 for Saw.
\<close>

theorem alien_vocabulary:
  "fit_transform (map genres_literal alien_catalog) =
     Inr ([''animationfamily'', ''fi'', ''horror'', ''horrorsci'', ''horrorsci fi''],
          [[0, 1, 0, 1, 1], [0, 0, 1, 0, 0], [1, 0, 0, 0, 0]])"
  by (rule fit_alien)

text \<open>
  Claim C3, as amended. Whenever the handler returns, for a sort that meets numpy's
  contract, the result has at most 16 entries; it has at most 15 when the target is
  the title of one row and that row's index is among the first 16 of its own ranking.
\<close>

theorem post_length_bound:
  assumes "argsort_ok argsort" and "post argsort movies target = Inr posters"
  shows "length posters \<le> 16 \<and>
    (\<forall>sim t. genre_sim movies = Inr sim \<and> title_index movies target = [t] \<and>
       t \<in> set (take 16 (genre_sim_sorted_ind argsort sim ! t)) \<longrightarrow> length posters \<le> 15)"
proof -
  obtain sim where sim: "genre_sim movies = Inr sim"
    using assms(2) by (cases "genre_sim movies") (simp_all add: post_def)
  consider "title_index movies target = []"
    | t where "title_index movies target = [t]"
    | "2 \<le> length (title_index movies target)"
  proof (cases "title_index movies target")
    case Nil
    then show ?thesis using that(1) by simp
  next
    case (Cons t ts)
    then show ?thesis using that(2,3) by (cases ts) simp_all
  qed
  then show ?thesis
  proof cases
    case 1
    with sim assms(2) show ?thesis by (simp add: post_none)
  next
    case (2 t)
    let ?rank = "rev (argsort (sim ! t))"
    from 2 have t: "t < length movies" by (simp add: title_index_single)
    with sim have "length sim = length movies" by (simp add: genre_sim_Inr)
    with t have row: "genre_sim_sorted_ind argsort sim ! t = ?rank"
      by (simp add: genre_sim_sorted_ind_def)
    from post_single [OF assms(1) sim 2] assms(2)
    have len: "length posters = length (filter (\<lambda>i. i \<noteq> t) (take 16 ?rank))" by auto
    have a: "length (filter (\<lambda>i. i \<noteq> t) (take 16 ?rank)) \<le> 16"
      by (rule order_trans [OF length_filter_le]) simp
    have b: "length (filter (\<lambda>i. i \<noteq> t) (take 16 ?rank)) \<le> 15"
      if "t \<in> set (take 16 ?rank)"
    proof -
      from that have "length (filter (\<lambda>i. i \<noteq> t) (take 16 ?rank)) < length (take 16 ?rank)"
        by (intro length_filter_less [of t]) auto
      then show ?thesis by simp
    qed
    from a b len row 2 sim show ?thesis by auto
  next
    case 3
    with assms sim show ?thesis by (simp add: post_many)
  qed
qed

theorem post_length_bound_witness:
  "post argsort_insertion alien_catalog ''Alien'' = Inr [''p3'', ''p2''] \<and>
   length [''p3'', ''p2''] \<le> (15 :: nat)"
proof -
  note bound = post_length_bound [OF argsort_insertion_ok post_alien]
  have "0 \<in> set (take 16 (genre_sim_sorted_ind argsort_insertion
      [[1, 0, 0], [0, 1, 0], [0, 0, 1]] ! 0))"
    by (simp add: genre_sim_sorted_ind_def argsort_eval)
  with genre_sim_alien title_index_alien(1)
  have "genre_sim alien_catalog = Inr [[1, 0, 0], [0, 1, 0], [0, 0, 1]] \<and>
    title_index alien_catalog ''Alien'' = [0] \<and>
    0 \<in> set (take 16 (genre_sim_sorted_ind argsort_insertion
      [[1, 0, 0], [0, 1, 0], [0, 0, 1]] ! 0))"
    by (intro conjI)
  then have "length [''p3'', ''p2''] \<le> (15 :: nat)"
    by (rule bound [THEN conjunct2, rule_format])
  with post_alien show ?thesis by (intro conjI)
qed

text \<open>
  Against the claim as stated: seventeen movies of one genre are a catalog with
  non-empty genre tags, the target is the title of the first row alone, and sixteen
  posters come back. All entries of the row are 1; a sort that leaves ties in index
  order returns the seventeen indices ascending, the reversal puts the target's
  index 0 last, and the first 16 do not hold it. (numpy partitions a row of 17, so
  its order among the ties, and with it the order of the posters, may differ; the
  number of posters does not, see \<open>drama_sixteen_any_sort\<close> below.)
\<close>

theorem drama_sixteen:
  "post argsort_insertion drama_catalog ''M00'' = Inr [''p16'', ''p15'', ''p14'', ''p13'', ''p12'', ''p11'', ''p10'', ''p09'', ''p08'', ''p07'', ''p06'', ''p05'', ''p04'', ''p03'', ''p02'', ''p01''] \<and> length [''p16'', ''p15'', ''p14'', ''p13'', ''p12'', ''p11'', ''p10'', ''p09'', ''p08'', ''p07'', ''p06'', ''p05'', ''p04'', ''p03'', ''p02'', ''p01''] = 16"
proof -
  have a: "argsort_insertion 
    (cosine_similarity
      [[1], [1], [1], [1], [1], [1], [1], [1], [1], [1], [1], [1], [1], [1], [1], [1], [1]]
      [[1], [1], [1], [1], [1], [1], [1], [1], [1], [1], [1], [1], [1], [1], [1], [1], [1]] ! 0) =
      [0, 1, 2, 3, 4, 5, 6, 7, 8, 9, 10, 11, 12, 13, 14, 15, 16]"
    unfolding row_drama by (rule argsort_drama)
  have b: "filter (\<lambda>i. i \<noteq> 0) (take 16 (rev
      [0, 1, 2, 3, 4, 5, 6, 7, 8, 9, 10, 11, 12, 13, 14, 15, 16])) = ([16, 15, 14, 13, 12, 11, 10, 9, 8, 7, 6, 5, 4, 3, 2, 1] :: nat list)"
    by simp
  have c: "map (\<lambda>i. movie_poster (drama_catalog ! i)) [16, 15, 14, 13, 12, 11, 10, 9, 8, 7, 6, 5, 4, 3, 2, 1] = [''p16'', ''p15'', ''p14'', ''p13'', ''p12'', ''p11'', ''p10'', ''p09'', ''p08'', ''p07'', ''p06'', ''p05'', ''p04'', ''p03'', ''p02'', ''p01'']"
    by code_simp
  have "post argsort_insertion drama_catalog ''M00'' = Inr [''p16'', ''p15'', ''p14'', ''p13'', ''p12'', ''p11'', ''p10'', ''p09'', ''p08'', ''p07'', ''p06'', ''p05'', ''p04'', ''p03'', ''p02'', ''p01'']"
    using post_insertion [OF genre_sim_drama title_index_drama a] unfolding b c .
  then show ?thesis by simp
qed

text \<open>
  The same catalog under any sort that meets the contract: all rows of the matrix
  are equal, so the ranking is the same for every target; the row whose index the
  ranking puts last is missing from its own first 16, and its title gets sixteen
  posters.
\<close>

lemma drama_sixteen_any_sort:
  assumes "argsort_ok argsort"
  shows "\<exists>t < 17. \<exists>posters.
    post argsort drama_catalog (movie_title (drama_catalog ! t)) = Inr posters \<and>
    length posters = 16"
proof -
  let ?v = "[1, 1, 1, 1, 1, 1, 1, 1, 1, 1, 1, 1, 1, 1, 1, 1, 1] :: real list"
  let ?a = "argsort ?v"
  have la: "length ?a = 17" by (simp add: argsort_ok_length [OF assms])
  then obtain t ts where a: "?a = t # ts" by (cases ?a) simp_all
  with la have lts: "length ts = 16" by simp
  from argsort_ok_distinct [OF assms, of ?v] a have nt: "t \<notin> set ts" by simp
  have "t \<in> set ?a" by (simp add: a)
  then have "t \<in> {..<length ?v}"
    by (simp only: argsort_ok_set [OF assms])
  then have t: "t < 17" by simp
  have "\<forall>t \<in> set [0 ..< 17].
      title_index drama_catalog (movie_title (drama_catalog ! t)) = [t]"
    by code_simp
  with t have ti: "title_index drama_catalog (movie_title (drama_catalog ! t)) = [t]"
    by simp
  have "cosine_similarity
      [[1], [1], [1], [1], [1], [1], [1], [1], [1], [1], [1], [1], [1], [1], [1], [1], [1]]
      [[1], [1], [1], [1], [1], [1], [1], [1], [1], [1], [1], [1], [1], [1], [1], [1], [1]] = replicate 17 ?v"
    by (simp add: cosine_eval eval_nat_numeral)
  with t have row: "cosine_similarity
      [[1], [1], [1], [1], [1], [1], [1], [1], [1], [1], [1], [1], [1], [1], [1], [1], [1]]
      [[1], [1], [1], [1], [1], [1], [1], [1], [1], [1], [1], [1], [1], [1], [1], [1], [1]] ! t = ?v"
    by (simp only: nth_replicate)
  have "take 16 (rev ?a) = rev ts"
    using lts by (simp add: a)
  with nt have "filter (\<lambda>i. i \<noteq> t) (take 16 (rev ?a)) = rev ts"
    by (simp add: filter_id_conv) blast
  with post_single [OF assms genre_sim_drama ti] lts row
  have "post argsort drama_catalog (movie_title (drama_catalog ! t)) =
      Inr (map (\<lambda>i. movie_poster (drama_catalog ! i)) (rev ts))"
    by simp
  moreover have "length (map (\<lambda>i. movie_poster (drama_catalog ! i)) (rev ts)) = 16"
    using lts by simp
  ultimately show ?thesis using t by blast
qed

text \<open>
  Claim C4, as amended. For a target that is the title of exactly one row \<open>t\<close>,
  whenever the handler returns, the index \<open>t\<close> is not among the selected indices and
  the result is the posters of the selected rows; so the result holds the poster of
  row \<open>t\<close> only when another row carries the same poster.
\<close>

theorem target_index_excluded:
  assumes "argsort_ok argsort" and "title_index movies target = [t]"
    and "post argsort movies target = Inr posters"
  shows "\<exists>sim idx. genre_sim movies = Inr sim \<and>
          similar_indexes (genre_sim_sorted_ind argsort sim) (title_index movies target)
            = Inr idx \<and>
          posters = map (\<lambda>i. movie_poster (movies ! i)) idx \<and> t \<notin> set idx \<and>
          ((\<forall>i < length movies. i \<noteq> t \<longrightarrow> movie_poster (movies ! i) \<noteq> movie_poster (movies ! t))
             \<longrightarrow> movie_poster (movies ! t) \<notin> set posters)"
proof -
  from assms(3) obtain sim where sim: "genre_sim movies = Inr sim"
    by (rule post_Inr_genre_sim)
  let ?idx = "filter (\<lambda>i. i \<noteq> t) (take 16 (genre_sim_sorted_ind argsort sim ! t))"
  note sel = selection_facts [OF assms(1) sim assms(2)]
  from sel(2) assms(3) have posters: "posters = map (\<lambda>i. movie_poster (movies ! i)) ?idx"
    by simp
  note valid = selection_valid(2) [OF assms(1) sim assms(2)]
  have excl: "t \<notin> set ?idx" by simp
  have other: "movie_poster (movies ! t) \<notin> set posters"
    if uniq: "\<forall>i < length movies. i \<noteq> t \<longrightarrow> movie_poster (movies ! i) \<noteq> movie_poster (movies ! t)"
  proof
    assume "movie_poster (movies ! t) \<in> set posters"
    then have "movie_poster (movies ! t) \<in> (\<lambda>i. movie_poster (movies ! i)) ` set ?idx"
      by (simp only: posters set_map)
    then obtain i where i: "i \<in> set ?idx"
      and eq: "movie_poster (movies ! t) = movie_poster (movies ! i)"
      by (rule imageE)
    from valid i have "i < length movies \<and> i \<noteq> t" by (rule bspec)
    with uniq have "movie_poster (movies ! i) \<noteq> movie_poster (movies ! t)" by simp
    with eq show False by simp
  qed
  show ?thesis
  proof (intro exI [of _ sim] exI [of _ ?idx] conjI impI)
    show "genre_sim movies = Inr sim" by (rule sim)
    show "similar_indexes (genre_sim_sorted_ind argsort sim) (title_index movies target)
      = Inr ?idx" by (rule sel(1))
    show "posters = map (\<lambda>i. movie_poster (movies ! i)) ?idx" by (rule posters)
    show "t \<notin> set ?idx" by (rule excl)
  next
    assume "\<forall>i < length movies. i \<noteq> t \<longrightarrow> movie_poster (movies ! i) \<noteq> movie_poster (movies ! t)"
    then show "movie_poster (movies ! t) \<notin> set posters" by (rule other)
  qed
qed

text \<open>The catalog of the scenario with the target "Saw" (row 1, poster p2).\<close>

lemma post_alien_saw: "post argsort_insertion alien_catalog ''Saw'' = Inr [''p3'', ''p1'']"
  using post_insertion [OF genre_sim_alien title_index_alien(2) argsort_alien(2)]
  by (simp add: alien_catalog_def)

theorem target_index_excluded_witness:
  "post argsort_insertion alien_catalog ''Saw'' = Inr [''p3'', ''p1''] \<and>
   movie_poster (alien_catalog ! 1) = ''p2'' \<and> ''p2'' \<notin> set [''p3'', ''p1'']"
proof -
  have uniq: "\<forall>i < length alien_catalog. i \<noteq> 1 \<longrightarrow>
      movie_poster (alien_catalog ! i) \<noteq> movie_poster (alien_catalog ! 1)"
    by (simp add: alien_catalog_def numeral_3_eq_3 All_less_Suc)
  from target_index_excluded [OF argsort_insertion_ok title_index_alien(2) post_alien_saw] uniq
  have "movie_poster (alien_catalog ! 1) \<notin> set [''p3'', ''p1'']" by blast
  moreover have "movie_poster (alien_catalog ! 1) = ''p2''" by (simp add: alien_catalog_def)
  ultimately show ?thesis using post_alien_saw by simp
qed

text \<open>
  Against the claim as stated: in the catalog of two movies with one poster the
  target "Alien" is the title of row 0 alone, row 0 carries the poster p1, and the
  result holds p1 (the poster of row 1).
\<close>

theorem twin_poster_returned:
  "title_index twin_catalog ''Alien'' = [0] \<and> movie_poster (twin_catalog ! 0) = ''p1'' \<and>
   post argsort_insertion twin_catalog ''Alien'' = Inr [''p1'']"
  using post_insertion [OF genre_sim_twin title_index_twin(1) argsort_twin(1)]
  by (simp add: title_index_twin(1)) (simp add: twin_catalog_def)

text \<open>
  Claim C5, as amended. When at least one movie of the catalog yields a feature and
  no row has the target as its title, the handler returns the empty sequence, with
  no error.
\<close>

theorem absent_target_empty:
  assumes "\<exists>m \<in> set movies. analyze (genres_literal m) \<noteq> []"
    and "target \<notin> movie_title ` set movies"
  shows "post argsort movies target = Inr []"
proof -
  from assms(1) have "genre_sim movies \<noteq> Inl EmptyVocabulary"
    by (simp add: genre_sim_Inl)
  then obtain sim where sim: "genre_sim movies = Inr sim"
    by (cases "genre_sim movies") (auto simp: genre_sim_Inl)
  have "movie_title (movies ! i) \<noteq> target" if "i < length movies" for i
  proof -
    from that have "movies ! i \<in> set movies" by (rule nth_mem)
    with assms(2) show ?thesis by auto
  qed
  then have "title_index movies target = []"
    by (simp add: title_index_def filter_empty_conv)
  with sim show ?thesis by (rule post_none)
qed

theorem absent_target_empty_witness:
  "post argsort_insertion alien_catalog ''Jaws'' = Inr []"
proof -
  have "analyze (genres_literal (alien_catalog ! 1)) = [''horror'']" by code_simp
  moreover have "alien_catalog ! 1 \<in> set alien_catalog" by (simp add: alien_catalog_def)
  ultimately have a: "\<exists>m \<in> set alien_catalog. analyze (genres_literal m) \<noteq> []"
    by (intro bexI [of _ "alien_catalog ! 1"]) simp_all
  have b: "''Jaws'' \<notin> movie_title ` set alien_catalog"
    by (simp add: alien_catalog_def)
  show ?thesis by (rule absent_target_empty [OF a b])
qed

text \<open>
  Against the claim as stated: the catalog of the one movie whose genre string is
  "X" is not empty, no row has the title "B", and the vectorizer raises on an empty
  vocabulary (a token has at least two word characters).
\<close>

theorem absent_target_raises:
  "title_index [\<lparr>movie_title = ''A'', movie_poster = ''p1'', movie_genres = ''X''\<rparr>] ''B'' = [] \<and>
   post argsort_insertion
     [\<lparr>movie_title = ''A'', movie_poster = ''p1'', movie_genres = ''X''\<rparr>] ''B''
     = Inl EmptyVocabulary"
proof -
  have "fit_transform (map genres_literal
      [\<lparr>movie_title = ''A'', movie_poster = ''p1'', movie_genres = ''X''\<rparr>])
      = Inl EmptyVocabulary"
    by code_simp
  then have "genre_sim [\<lparr>movie_title = ''A'', movie_poster = ''p1'', movie_genres = ''X''\<rparr>]
      = Inl EmptyVocabulary"
    by (simp add: genre_sim_def)
  then have "post argsort_insertion
     [\<lparr>movie_title = ''A'', movie_poster = ''p1'', movie_genres = ''X''\<rparr>] ''B''
     = Inl EmptyVocabulary"
    by (rule post_Inl_genre_sim)
  moreover have
    "title_index [\<lparr>movie_title = ''A'', movie_poster = ''p1'', movie_genres = ''X''\<rparr>] ''B'' = []"
    by code_simp
  ultimately show ?thesis by (intro conjI)
qed

text \<open>
  Claim C6, as amended. For a catalog of exactly one movie whose genre string yields
  a feature, and a sort that meets numpy's contract, the handler returns the empty
  sequence for every target, with no error.
\<close>

theorem single_movie_empty:
  assumes "argsort_ok argsort" and "analyze (genres_literal m) \<noteq> []"
  shows "post argsort [m] target = Inr []"
proof -
  from assms(2) have "genre_sim [m] \<noteq> Inl EmptyVocabulary"
    by (simp add: genre_sim_Inl)
  then obtain sim where sim: "genre_sim [m] = Inr sim"
    by (cases "genre_sim [m]") (auto simp: genre_sim_Inl)
  show ?thesis
  proof (cases "movie_title m = target")
    case True
    then have ti: "title_index [m] target = [0]" by (simp add: title_index_def)
    from sim have "length (sim ! 0) = 1" using genre_sim_Inr(2) [OF sim] by simp
    then have "set (argsort (sim ! 0)) = {0}"
      using argsort_ok_set [OF assms(1), of "sim ! 0"] by (simp add: lessThan_Suc)
    then have "set (take 16 (rev (argsort (sim ! 0)))) \<subseteq> {0}"
      using set_take_subset [of 16 "rev (argsort (sim ! 0))"] by simp
    then have "filter (\<lambda>i. i \<noteq> 0) (take 16 (rev (argsort (sim ! 0)))) = []"
      unfolding filter_empty_conv by blast
    with post_single [OF assms(1) sim ti] show ?thesis by simp
  next
    case False
    then have "title_index [m] target = []" by (simp add: title_index_def)
    with sim show ?thesis by (rule post_none)
  qed
qed

theorem single_movie_empty_witness:
  "post argsort_insertion
     [\<lparr>movie_title = ''Saw'', movie_poster = ''p2'', movie_genres = ''Horror''\<rparr>] ''Saw''
     = Inr []"
proof -
  have "analyze (genres_literal
      \<lparr>movie_title = ''Saw'', movie_poster = ''p2'', movie_genres = ''Horror''\<rparr>) = [''horror'']"
    by code_simp
  then have "analyze (genres_literal
      \<lparr>movie_title = ''Saw'', movie_poster = ''p2'', movie_genres = ''Horror''\<rparr>) \<noteq> []"
    by simp
  then show ?thesis by (rule single_movie_empty [OF argsort_insertion_ok])
qed

text \<open>
  Against the claim as stated: on the catalog with no movie the vectorizer raises
  (the vocabulary is empty), whatever the target.
\<close>

theorem empty_catalog_raises: "post argsort_insertion [] ''Alien'' = Inl EmptyVocabulary"
proof -
  have "genre_sim [] = Inl EmptyVocabulary" by (simp add: genre_sim_Inl)
  then show ?thesis by (rule post_Inl_genre_sim)
qed

text \<open>
  Claim C7. For a target that is the title of exactly one row \<open>t\<close>, whenever the
  handler returns, the returned posters are those of the selected rows in the order
  of selection, and along that order the cosine similarity to row \<open>t\<close> never
  increases: no later entry has a strictly higher similarity than an earlier one.
\<close>

theorem similarity_descending:
  assumes "argsort_ok argsort" and "title_index movies target = [t]"
    and "post argsort movies target = Inr posters"
  shows "\<exists>sim idx. genre_sim movies = Inr sim \<and>
          similar_indexes (genre_sim_sorted_ind argsort sim) (title_index movies target)
            = Inr idx \<and>
          posters = map (\<lambda>i. movie_poster (movies ! i)) idx \<and>
          sorted_wrt (\<lambda>i j. sim ! t ! j \<le> sim ! t ! i) idx"
proof -
  from assms(3) obtain sim where sim: "genre_sim movies = Inr sim"
    by (rule post_Inr_genre_sim)
  let ?idx = "filter (\<lambda>i. i \<noteq> t) (take 16 (genre_sim_sorted_ind argsort sim ! t))"
  note sel = selection_facts [OF assms(1) sim assms(2)]
  from sel(2) assms(3) have posters: "posters = map (\<lambda>i. movie_poster (movies ! i)) ?idx"
    by simp
  have "sorted_wrt (\<lambda>i j. sim ! t ! j \<le> sim ! t ! i)
      (take 16 (genre_sim_sorted_ind argsort sim ! t))"
    by (rule sorted_wrt_take [OF ranking_facts(5) [OF assms(1) sim assms(2)]])
  then have "sorted_wrt (\<lambda>i j. sim ! t ! j \<le> sim ! t ! i) ?idx"
    by (rule sorted_wrt_filter)
  with sim sel(1) posters show ?thesis by (intro exI [of _ sim] exI [of _ ?idx] conjI)
qed

text \<open>
  On the catalog with a space after every comma the tokens are separate: Saw is at
  similarity \<open>1 / sqrt 5\<close> to Alien and Up at 0, and p2 comes first.
\<close>

theorem similarity_descending_witness:
  "post argsort_insertion spaced_catalog ''Alien'' = Inr [''p2'', ''p3''] \<and>
   sorted_wrt (\<lambda>i j. [1, 1 / sqrt 5, 0 :: real] ! j \<le> [1, 1 / sqrt 5, 0] ! i) [1, 2]"
proof -
  from similarity_descending [OF argsort_insertion_ok title_index_spaced post_spaced]
  obtain sim idx where
    sim: "genre_sim spaced_catalog = Inr sim"
    and sel: "similar_indexes (genre_sim_sorted_ind argsort_insertion sim)
            (title_index spaced_catalog ''Alien'') = Inr idx"
    and desc: "sorted_wrt (\<lambda>i j. sim ! 0 ! j \<le> sim ! 0 ! i) idx"
    by blast
  from sim genre_sim_spaced
  have s: "sim = [[1, 1 / sqrt 5, 0], [1 / sqrt 5, 1, 0], [0, 0, 1]]" by simp
  have "similar_indexes (genre_sim_sorted_ind argsort_insertion
            [[1, 1 / sqrt 5, 0], [1 / sqrt 5, 1, 0], [0, 0, 1]])
            (title_index spaced_catalog ''Alien'') = Inr [1, 2]"
    by (simp add: title_index_spaced similar_indexes_single genre_sim_sorted_ind_def
        argsort_eval)
  with sel have "idx = [1, 2]" unfolding s by simp
  with desc have "sorted_wrt (\<lambda>i j. [1, 1 / sqrt 5, 0 :: real] ! j \<le> [1, 1 / sqrt 5, 0] ! i) [1, 2]"
    unfolding s by (simp only: nth_Cons_0)
  with post_spaced show ?thesis by (intro conjI)
qed

text \<open>
  Claim C8, as amended. For every catalog the vectorizer accepts and every rounding
  that meets the contract, with \<open>r = ratio ^ (4 * n + 8)\<close> for a vocabulary of \<open>n\<close>
  features: every entry of the float matrix is within the factor \<open>r\<close> of the exact
  cosine, so \<open>0 \<le> S[i][j] \<le> r\<close>; the diagonal entry of a movie with a nonzero count
  vector is at least \<open>1 / r\<close>, and that of a movie with a zero count vector is 0.
\<close>

theorem genre_sim_f64_bounds:
  assumes "rounding_ok fl"
    and "fit_transform (map genres_literal movies) = Inr (vocabulary, genre_mat)"
    and "i < length movies" and "j < length movies"
  shows "(let S = cosine_similarity_f64 fl genre_mat genre_mat;
              r = ratio ^ (4 * length vocabulary + 8)
          in close_to (4 * length vocabulary + 8) (S ! i ! j)
               (cosine_similarity genre_mat genre_mat ! i ! j) \<and>
             0 \<le> S ! i ! j \<and> S ! i ! j \<le> r \<and>
             (if \<forall>v \<in> set (genre_mat ! i). v = 0 then S ! i ! i = 0
              else 1 \<le> r * S ! i ! i))"
proof -
  let ?K = "4 * length vocabulary + 8"
  let ?S = "cosine_similarity_f64 fl genre_mat genre_mat"
  let ?C = "cosine_similarity genre_mat genre_mat"
  from assms(3,4) have ij: "i < length (map genres_literal movies)"
    "j < length (map genres_literal movies)" by simp_all
  note rows_i = fit_transform_rows [OF assms(2) ij(1)]
  note rows_j = fit_transform_rows [OF assms(2) ij(2)]
  from rows_i(1) assms(3,4) have lt: "i < length genre_mat" "j < length genre_mat" by simp_all
  have close: "close_to ?K (?S ! a ! b) (?C ! a ! b)"
    if "a < length genre_mat" "b < length genre_mat"
      "length (genre_mat ! a) = length vocabulary" "length (genre_mat ! b) = length vocabulary"
    for a b
  proof -
    from that(3,4) have "length (genre_mat ! b) = length (genre_mat ! a)" by simp
    with assms(1) have "close_to (4 * length (genre_mat ! a) + 8)
        (f64_dot fl (f64_normalize fl (genre_mat ! a)) (f64_normalize fl (genre_mat ! b)))
        (dot (normalize (genre_mat ! a)) (normalize (genre_mat ! b)))"
      by (rule cosine_f64_close)
    with that show ?thesis
      by (simp add: cosine_similarity_f64_nth cosine_similarity_nth)
  qed
  have cij: "close_to ?K (?S ! i ! j) (?C ! i ! j)"
    using lt rows_i(2) rows_j(2) by (rule close)
  have cii: "close_to ?K (?S ! i ! i) (?C ! i ! i)"
    using lt(1) lt(1) rows_i(2) rows_i(2) by (rule close)
  have Cij: "?C ! i ! j \<le> 1"
    using lt by (simp add: cosine_similarity_nth cosine_le_1)
  from cij have nn: "0 \<le> ?S ! i ! j" and le: "?S ! i ! j \<le> ratio ^ ?K * (?C ! i ! j)"
    by (simp_all add: close_to_def)
  from Cij have "ratio ^ ?K * (?C ! i ! j) \<le> ratio ^ ?K * 1"
    using ratio_power_pos [of ?K] by (intro mult_left_mono) simp_all
  with le have ub: "?S ! i ! j \<le> ratio ^ ?K" by simp
  have Cii: "?C ! i ! i = dot (normalize (genre_mat ! i)) (normalize (genre_mat ! i))"
    using lt(1) by (simp add: cosine_similarity_nth)
  have diag: "if \<forall>v \<in> set (genre_mat ! i). v = 0 then ?S ! i ! i = 0
      else 1 \<le> ratio ^ ?K * ?S ! i ! i"
  proof (cases "\<forall>v \<in> set (genre_mat ! i). v = 0")
    case True
    then have "row_norm (genre_mat ! i) = 0" by (simp add: row_norm_0_iff)
    then have "?C ! i ! i = 0" unfolding Cii by (rule cosine_zero_row)
    with cii have z: "?S ! i ! i = 0" by (simp add: close_to_zero)
    show ?thesis unfolding if_P [OF True] by (rule z)
  next
    case False
    then have "row_norm (genre_mat ! i) \<noteq> 0" by (simp add: row_norm_0_iff)
    then have "?C ! i ! i = 1" unfolding Cii by (rule cosine_self)
    with cii have h: "1 \<le> ratio ^ ?K * ?S ! i ! i" by (simp add: close_to_def)
    show ?thesis unfolding if_not_P [OF False] by (rule h)
  qed
  from cij nn ub diag show ?thesis unfolding Let_def by (intro conjI)
qed

text \<open>
  The theorem at the rounding of float64 and the catalog of the scenario, whose
  vocabulary has five features: the similarity of Alien with itself.
\<close>

theorem genre_sim_f64_bounds_witness:
  "cosine_similarity_f64 round64 [[0, 1, 0, 1, 1], [0, 0, 1, 0, 0], [1, 0, 0, 0, 0]]
      [[0, 1, 0, 1, 1], [0, 0, 1, 0, 0], [1, 0, 0, 0, 0]] ! 0 ! 0 = 1 + 1 / 2 ^ 52 \<and>
   1 + 1 / 2 ^ 52 \<le> ratio ^ 28 \<and> 1 \<le> ratio ^ 28 * (1 + 1 / 2 ^ 52)"
proof -
  let ?M = "[[0, 1, 0, 1, 1], [0, 0, 1, 0, 0], [1, 0, 0, 0, 0]] :: nat list list"
  have len: "(0 :: nat) < length alien_catalog" by (simp add: alien_catalog_def)
  have S: "cosine_similarity_f64 round64 ?M ?M ! 0 ! 0 = 1 + 1 / 2 ^ 52"
    unfolding cosine_similarity_f64_def by (simp only: list.map nth_Cons_0 alien_self_f64)
  have nz: "\<not> (\<forall>v \<in> set (?M ! 0). v = 0)" by simp
  from genre_sim_f64_bounds [OF round64_ok fit_alien len len]
  have "cosine_similarity_f64 round64 ?M ?M ! 0 ! 0 \<le> ratio ^ 28"
    and "if \<forall>v \<in> set (?M ! 0). v = 0 then cosine_similarity_f64 round64 ?M ?M ! 0 ! 0 = 0
      else 1 \<le> ratio ^ 28 * cosine_similarity_f64 round64 ?M ?M ! 0 ! 0"
    unfolding Let_def by simp_all
  with nz have "cosine_similarity_f64 round64 ?M ?M ! 0 ! 0 \<le> ratio ^ 28"
    and "1 \<le> ratio ^ 28 * cosine_similarity_f64 round64 ?M ?M ! 0 ! 0"
    by (simp_all only: if_False)
  then have b: "1 + 1 / 2 ^ 52 \<le> ratio ^ 28"
    and c: "1 \<le> ratio ^ 28 * (1 + 1 / 2 ^ 52)"
    unfolding S .
  from S b c show ?thesis by (intro conjI)
qed

text \<open>
  Against the claim as stated, at the rounding of float64. On the catalog of the
  scenario (every genre string non-empty) the count matrix is the one below and the
  similarity of Alien with itself is \<open>1 + 2\<^sup>-\<^sup>5\<^sup>2\<close> (printed 1.0000000000000002): not 1,
  and above 1. On the catalog with the one-letter genre the count vector of the
  first movie is zero and its similarity with itself is 0.
\<close>

theorem self_similarity_not_one:
  "fit_transform (map genres_literal alien_catalog) =
     Inr ([''animationfamily'', ''fi'', ''horror'', ''horrorsci'', ''horrorsci fi''],
          [[0, 1, 0, 1, 1], [0, 0, 1, 0, 0], [1, 0, 0, 0, 0]]) \<and>
   cosine_similarity_f64 round64 [[0, 1, 0, 1, 1], [0, 0, 1, 0, 0], [1, 0, 0, 0, 0]]
      [[0, 1, 0, 1, 1], [0, 0, 1, 0, 0], [1, 0, 0, 0, 0]] ! 0 ! 0 = 1 + 1 / 2 ^ 52 \<and>
   (1 :: real) < 1 + 1 / 2 ^ 52 \<and>
   fit_transform (map genres_literal letter_catalog) = Inr ([''horror''], [[0], [1]]) \<and>
   cosine_similarity_f64 round64 [[0], [1]] [[0], [1]] ! 0 ! 0 = 0"
proof -
  have a: "cosine_similarity_f64 round64 [[0, 1, 0, 1, 1], [0, 0, 1, 0, 0], [1, 0, 0, 0, 0]]
      [[0, 1, 0, 1, 1], [0, 0, 1, 0, 0], [1, 0, 0, 0, 0]] ! 0 ! 0 = 1 + 1 / 2 ^ 52"
    unfolding cosine_similarity_f64_def by (simp only: list.map nth_Cons_0 alien_self_f64)
  have b: "cosine_similarity_f64 round64 [[0], [1]] [[0], [1]] ! 0 ! 0 = 0"
    by (simp add: cosine_similarity_f64_def f64_dot_def f64_normalize_def f64_sum_def)
  have c: "(1 :: real) < 1 + 1 / 2 ^ 52" by simp
  from fit_alien a c fit_letter b show ?thesis by (intro conjI)
qed

text \<open>
  Claim C9. For a target that is the title of exactly one row \<open>t\<close> of a catalog of
  \<open>n\<close> movies, whenever the handler returns: the ranking of row \<open>t\<close> lists every
  index below \<open>n\<close> once, in order of descending similarity; the selection is its first
  16 entries, or all \<open>n\<close> when \<open>n < 16\<close>; the entries equal to \<open>t\<close> are removed
  from the selection; and the posters returned are those of the remaining rows, in
  that order.
\<close>

theorem top_sixteen_without_target:
  assumes "argsort_ok argsort" and "title_index movies target = [t]"
    and "post argsort movies target = Inr posters"
  shows "\<exists>sim. genre_sim movies = Inr sim \<and>
         (let ranking = genre_sim_sorted_ind argsort sim ! t;
              selection = take 16 ranking;
              remaining = filter (\<lambda>i. i \<noteq> t) selection
          in distinct ranking \<and> set ranking = {..<length movies} \<and>
             sorted_wrt (\<lambda>i j. sim ! t ! j \<le> sim ! t ! i) ranking \<and>
             length selection = min (length movies) 16 \<and>
             similar_indexes (genre_sim_sorted_ind argsort sim) (title_index movies target)
               = Inr remaining \<and>
             posters = map (\<lambda>i. movie_poster (movies ! i)) remaining)"
proof -
  from assms(3) obtain sim where sim: "genre_sim movies = Inr sim"
    by (rule post_Inr_genre_sim)
  note rank = ranking_facts [OF assms(1) sim assms(2)]
  note sel = selection_facts [OF assms(1) sim assms(2)]
  have len: "length (take 16 (genre_sim_sorted_ind argsort sim ! t)) = min (length movies) 16"
    by (simp add: rank(4))
  from sel(2) assms(3)
  have posters: "posters = map (\<lambda>i. movie_poster (movies ! i))
      (filter (\<lambda>i. i \<noteq> t) (take 16 (genre_sim_sorted_ind argsort sim ! t)))"
    by simp
  show ?thesis
    unfolding Let_def
    by (intro exI [of _ sim] conjI sim rank(2) rank(3) rank(5) len sel(1) posters)
qed

text \<open>The catalog of the scenario with the target "Up" (row 2).\<close>

lemma post_alien_up: "post argsort_insertion alien_catalog ''Up'' = Inr [''p2'', ''p1'']"
  using post_insertion [OF genre_sim_alien title_index_alien(3) argsort_alien(3)]
  by (simp add: alien_catalog_def)

theorem top_sixteen_without_target_witness:
  "similar_indexes (genre_sim_sorted_ind argsort_insertion [[1, 0, 0], [0, 1, 0], [0, 0, 1]])
      (title_index alien_catalog ''Up'') = Inr (filter (\<lambda>i. i \<noteq> 2) (take 16 [2, 1, 0])) \<and>
   length (take 16 [2, 1, 0 :: nat]) = min (length alien_catalog) 16 \<and>
   post argsort_insertion alien_catalog ''Up'' = Inr [''p2'', ''p1'']"
proof -
  have rank: "genre_sim_sorted_ind argsort_insertion [[1, 0, 0], [0, 1, 0], [0, 0, 1]] ! 2
      = [2, 1, 0]"
    by (simp add: genre_sim_sorted_ind_def argsort_eval)
  from top_sixteen_without_target [OF argsort_insertion_ok title_index_alien(3) post_alien_up]
  obtain sim where sim: "genre_sim alien_catalog = Inr sim"
    and len: "length (take 16 (genre_sim_sorted_ind argsort_insertion sim ! 2))
        = min (length alien_catalog) 16"
    and sel: "similar_indexes (genre_sim_sorted_ind argsort_insertion sim)
        (title_index alien_catalog ''Up'')
        = Inr (filter (\<lambda>i. i \<noteq> 2) (take 16 (genre_sim_sorted_ind argsort_insertion sim ! 2)))"
    unfolding Let_def by blast
  from sim genre_sim_alien have s: "sim = [[1, 0, 0], [0, 1, 0], [0, 0, 1]]" by simp
  from len sel post_alien_up show ?thesis unfolding s rank by (intro conjI)
qed

text \<open>
  Claim C10. For a target that is the title of exactly one row \<open>t\<close>, whenever the
  handler returns, the posters returned are the posters of the selected rows; every
  selected index is a row index of the catalog and differs from \<open>t\<close>, and no index
  is selected twice.
\<close>

theorem selected_rows_valid:
  assumes "argsort_ok argsort" and "title_index movies target = [t]"
    and "post argsort movies target = Inr posters"
  shows "\<exists>sim idx. genre_sim movies = Inr sim \<and>
          similar_indexes (genre_sim_sorted_ind argsort sim) (title_index movies target)
            = Inr idx \<and>
          posters = map (\<lambda>i. movie_poster (movies ! i)) idx \<and>
          distinct idx \<and> (\<forall>i \<in> set idx. i < length movies \<and> i \<noteq> t)"
proof -
  from assms(3) obtain sim where sim: "genre_sim movies = Inr sim"
    by (rule post_Inr_genre_sim)
  let ?idx = "filter (\<lambda>i. i \<noteq> t) (take 16 (genre_sim_sorted_ind argsort sim ! t))"
  note sel = selection_facts [OF assms(1) sim assms(2)]
  from sel(2) assms(3) have posters: "posters = map (\<lambda>i. movie_poster (movies ! i)) ?idx"
    by simp
  from sim sel(1) posters selection_valid [OF assms(1) sim assms(2)]
  show ?thesis by (intro exI [of _ sim] exI [of _ ?idx] conjI)
qed

text \<open>The two movies with one poster, target "Saw" (row 1).\<close>

lemma post_twin_saw: "post argsort_insertion twin_catalog ''Saw'' = Inr [''p1'']"
  using post_insertion [OF genre_sim_twin title_index_twin(2) argsort_twin(2)]
  by (simp add: twin_catalog_def)

theorem selected_rows_valid_witness:
  "post argsort_insertion twin_catalog ''Saw'' = Inr [''p1''] \<and>
   [''p1''] = map (\<lambda>i. movie_poster (twin_catalog ! i)) [0] \<and>
   distinct [0 :: nat] \<and> (0 :: nat) < length twin_catalog \<and> (0 :: nat) \<noteq> 1"
proof -
  from selected_rows_valid [OF argsort_insertion_ok title_index_twin(2) post_twin_saw]
  obtain sim idx where sim: "genre_sim twin_catalog = Inr sim"
    and sel: "similar_indexes (genre_sim_sorted_ind argsort_insertion sim)
            (title_index twin_catalog ''Saw'') = Inr idx"
    and posters: "[''p1''] = map (\<lambda>i. movie_poster (twin_catalog ! i)) idx"
    and d: "distinct idx" and v: "\<forall>i \<in> set idx. i < length twin_catalog \<and> i \<noteq> 1"
    by (elim exE conjE)
  from sim genre_sim_twin have s: "sim = [[1, 1], [1, 1]]" by simp
  have "similar_indexes (genre_sim_sorted_ind argsort_insertion [[1, 1], [1, 1]])
            (title_index twin_catalog ''Saw'') = Inr [0]"
    by (simp add: title_index_twin(2) similar_indexes_single genre_sim_sorted_ind_def
        argsort_eval)
  with sel have idx: "idx = [0]" unfolding s by simp
  from v have "(0 :: nat) < length twin_catalog \<and> (0 :: nat) \<noteq> 1"
    unfolding idx by simp
  with posters d post_twin_saw show ?thesis unfolding idx by (intro conjI) simp_all
qed

end
